(* ===== verification/Prelude.thy ===== *)
theory Prelude
  imports Main "HOL-Library.Char_ord" "HOL-Library.List_Lexorder"
begin

text \<open>
  Shared ground of the development: the theorem collections, Python's exceptions as a datatype,
  association lists that behave as Python dictionaries (insertion order kept, an update in
  place), and the operations of Python's \<^verbatim>\<open>str\<close> that the scripts use.

  A Python string is modelled by its UTF-8 encoding, a \<^typ>\<open>char list\<close> of bytes.  Concatenation,
  equality, the code-point order, prefix tests, splitting and replacing at ASCII separators and
  \<^verbatim>\<open>encode("utf-8")\<close> (the identity) are exact under this reading; \<^verbatim>\<open>strip\<close>, \<^verbatim>\<open>splitlines\<close> and
  \<^verbatim>\<open>int\<close> look at ASCII white space and ASCII digits only.
\<close>

named_theorems py_simps \<open>unfolding rules for the modelled Python operations\<close>
named_theorems io_simps \<open>evaluation rules of the effect monad\<close>
named_theorems wp \<open>weakest-precondition rules of the effect monad\<close>

section \<open>Exceptions\<close>

datatype exn =
    ValueError string
  | JSONDecodeError string
  | UnicodeDecodeError
  | CycleError
  | KeyError string
  | IndexError
  | TypeError string
  | AttributeError string
  | OverflowError string
  | ZeroDivisionError
  | RecursionError
  | OSError string
  | FileNotFoundError string
  | CalledProcessError "string list" int string string
  | TemplateSyntaxError int string
  | UndefinedError string
  | KeyboardInterrupt
  | SystemExit int

text \<open>Membership in the exception classes that the scripts name in their \<^verbatim>\<open>except\<close> clauses.\<close>

fun is_exception :: "exn \<Rightarrow> bool" where
  "is_exception KeyboardInterrupt = False"
| "is_exception (SystemExit _) = False"
| "is_exception _ = True"

fun is_value_error :: "exn \<Rightarrow> bool" where
  "is_value_error (ValueError _) = True"
| "is_value_error (JSONDecodeError _) = True"
| "is_value_error UnicodeDecodeError = True"
| "is_value_error CycleError = True"
| "is_value_error _ = False"

fun is_os_error :: "exn \<Rightarrow> bool" where
  "is_os_error (OSError _) = True"
| "is_os_error (FileNotFoundError _) = True"
| "is_os_error _ = False"

fun is_key_error :: "exn \<Rightarrow> bool" where
  "is_key_error (KeyError _) = True"
| "is_key_error _ = False"

fun is_file_not_found :: "exn \<Rightarrow> bool" where
  "is_file_not_found (FileNotFoundError _) = True"
| "is_file_not_found _ = False"

fun is_called_process_error :: "exn \<Rightarrow> bool" where
  "is_called_process_error (CalledProcessError _ _ _ _) = True"
| "is_called_process_error _ = False"

lemma value_error_is_exception: "is_value_error e \<Longrightarrow> is_exception e"
  by (cases e) auto

lemma os_error_is_exception: "is_os_error e \<Longrightarrow> is_exception e"
  by (cases e) auto

section \<open>Dictionaries\<close>

type_synonym 'v dict = "(string \<times> 'v) list"

text \<open>
  A dictionary is an association list with distinct keys: \<^const>\<open>map_of\<close> looks a key up, the list
  order is the iteration order, and an update keeps the position of a key that is present.
\<close>

fun dict_set :: "('k \<times> 'v) list \<Rightarrow> 'k \<Rightarrow> 'v \<Rightarrow> ('k \<times> 'v) list" where
  "dict_set [] k v = [(k, v)]"
| "dict_set ((k', v') # d) k v = (if k' = k then (k, v) # d else (k', v') # dict_set d k v)"

definition dict_update :: "('k \<times> 'v) list \<Rightarrow> ('k \<times> 'v) list \<Rightarrow> ('k \<times> 'v) list" where
  "dict_update d e = fold (\<lambda>(k, v) acc. dict_set acc k v) e d"

abbreviation dict_keys :: "('k \<times> 'v) list \<Rightarrow> 'k list" where
  "dict_keys d \<equiv> map fst d"

abbreviation dict_wf :: "('k \<times> 'v) list \<Rightarrow> bool" where
  "dict_wf d \<equiv> distinct (map fst d)"

lemma map_of_dict_set [simp]: "map_of (dict_set d k v) = (map_of d)(k \<mapsto> v)"
  by (induction d k v rule: dict_set.induct) (auto simp: fun_eq_iff)

lemma keys_dict_set [simp]: "set (dict_keys (dict_set d k v)) = insert k (set (dict_keys d))"
  by (induction d k v rule: dict_set.induct) auto

lemma dict_wf_set [simp]: "dict_wf d \<Longrightarrow> dict_wf (dict_set d k v)"
proof (induction d k v rule: dict_set.induct)
  case (2 k' v' d k v)
  then show ?case using keys_dict_set [of d k v] by auto
qed simp

lemma dict_set_present: "k \<in> set (dict_keys d) \<Longrightarrow> dict_keys (dict_set d k v) = dict_keys d"
  by (induction d k v rule: dict_set.induct) auto

lemma dict_set_absent: "k \<notin> set (dict_keys d) \<Longrightarrow> dict_set d k v = d @ [(k, v)]"
  by (induction d k v rule: dict_set.induct) auto

lemma map_of_dict_update: "map_of (dict_update d e) = map_of d ++ map_of (rev e)"
proof (induction e arbitrary: d)
  case (Cons kv e)
  obtain k v where [simp]: "kv = (k, v)" by fastforce
  have "map_of (dict_update d (kv # e)) = map_of (dict_update (dict_set d k v) e)"
    by (simp add: dict_update_def)
  also have "\<dots> = (map_of d)(k \<mapsto> v) ++ map_of (rev e)"
    by (simp only: Cons.IH map_of_dict_set)
  also have "\<dots> = map_of d ++ map_of (rev (kv # e))"
    by (rule ext) (simp add: map_add_def split: option.splits)
  finally show ?case .
qed (simp add: dict_update_def)

lemma dict_wf_update: "dict_wf d \<Longrightarrow> dict_wf (dict_update d e)"
  unfolding dict_update_def
  by (induction e arbitrary: d) (auto split: prod.splits)

section \<open>Strings\<close>

abbreviation nl :: char where "nl \<equiv> CHR 0x0A"

definition quoted :: "string \<Rightarrow> string" where
  "quoted s = CHR 0x27 # s @ [CHR 0x27]"

fun join :: "string \<Rightarrow> string list \<Rightarrow> string" where
  "join sep [] = ''''"
| "join sep [s] = s"
| "join sep (s # t # ts) = s @ sep @ join sep (t # ts)"

fun startswith :: "string \<Rightarrow> string \<Rightarrow> bool" where
  "startswith s [] = True"
| "startswith [] (p # ps) = False"
| "startswith (c # s) (p # ps) = (c = p \<and> startswith s ps)"

definition endswith :: "string \<Rightarrow> string \<Rightarrow> bool" where
  "endswith s p = startswith (rev s) (rev p)"

fun contains :: "string \<Rightarrow> string \<Rightarrow> bool" where
  "contains [] p = (p = [])"
| "contains (c # s) p = (startswith (c # s) p \<or> contains s p)"

fun split_on :: "char \<Rightarrow> string \<Rightarrow> string list" where
  "split_on sep [] = [[]]"
| "split_on sep (c # s) =
     (if c = sep then [] # split_on sep s
      else (case split_on sep s of [] \<Rightarrow> [[c]] | p # ps \<Rightarrow> (c # p) # ps))"

text \<open>\<^verbatim>\<open>s.split(sep, 1)\<close> for a separator that occurs: the part before its first occurrence and
  the part after it.\<close>

definition split_first :: "char \<Rightarrow> string \<Rightarrow> string \<times> string" where
  "split_first sep s = (takeWhile (\<lambda>c. c \<noteq> sep) s, tl (dropWhile (\<lambda>c. c \<noteq> sep) s))"

function replace :: "string \<Rightarrow> string \<Rightarrow> string \<Rightarrow> string" where
  "replace old new s =
     (if old = [] \<or> s = [] then s
      else if startswith s old then new @ replace old new (drop (length old) s)
      else hd s # replace old new (tl s))"
  by pat_completeness auto
termination
  by (relation "measure (\<lambda>(old, new, s). length s)") auto

declare replace.simps [simp del]

definition is_space :: "char \<Rightarrow> bool" where
  "is_space c = (c \<in> set [CHR '' '', CHR 0x09, CHR 0x0A, CHR 0x0B, CHR 0x0C, CHR 0x0D,
     CHR 0x1C, CHR 0x1D, CHR 0x1E, CHR 0x1F])"

definition lstrip :: "string \<Rightarrow> string" where
  "lstrip s = dropWhile is_space s"

definition strip :: "string \<Rightarrow> string" where
  "strip s = rev (lstrip (rev (lstrip s)))"

definition is_line_sep :: "char \<Rightarrow> bool" where
  "is_line_sep c = (c \<in> set [CHR 0x0A, CHR 0x0B, CHR 0x0C, CHR 0x0D, CHR 0x1C, CHR 0x1D, CHR 0x1E])"

text \<open>\<^verbatim>\<open>str.splitlines()\<close>: a carriage return followed by a line feed is one separator and there
  is no empty last line.\<close>

fun splitlines_acc :: "string \<Rightarrow> string \<Rightarrow> string list" where
  "splitlines_acc cur [] = (if cur = [] then [] else [rev cur])"
| "splitlines_acc cur [c] = (if is_line_sep c then [rev cur] else [rev (c # cur)])"
| "splitlines_acc cur (c # d # s) =
     (if c = CHR 0x0D \<and> d = nl then rev cur # splitlines_acc [] s
      else if is_line_sep c then rev cur # splitlines_acc [] (d # s)
      else splitlines_acc (c # cur) (d # s))"

definition splitlines :: "string \<Rightarrow> string list" where
  "splitlines s = splitlines_acc [] s"

lemma startswith_prefix: "startswith s p \<longleftrightarrow> (\<exists>t. s = p @ t)"
  by (induction s p rule: startswith.induct) auto

lemma startswith_append [simp]: "startswith (p @ s) p"
  by (auto simp: startswith_prefix)

lemma endswith_suffix: "endswith s p \<longleftrightarrow> (\<exists>t. s = t @ p)"
proof -
  have "endswith s p \<longleftrightarrow> (\<exists>t. rev s = rev p @ t)"
    by (simp add: endswith_def startswith_prefix)
  also have "\<dots> \<longleftrightarrow> (\<exists>t. s = rev t @ p)" by (metis rev_append rev_rev_ident)
  also have "\<dots> \<longleftrightarrow> (\<exists>t. s = t @ p)" by (metis rev_rev_ident)
  finally show ?thesis .
qed

lemma contains_infix: "contains s p \<longleftrightarrow> (\<exists>u v. s = u @ p @ v)"
proof (induction s)
  case (Cons c s)
  have "(\<exists>u v. c # s = u @ p @ v) \<longleftrightarrow> (\<exists>v. c # s = p @ v) \<or> (\<exists>u v. s = u @ p @ v)"
    by (metis append_Cons append_eq_Cons_conv self_append_conv2)
  with Cons show ?case by (simp add: startswith_prefix)
qed auto

lemma split_on_ne [simp]: "split_on sep s \<noteq> []"
  by (induction s) (auto split: list.splits)

lemma split_on_join: "join [sep] (split_on sep s) = s"
proof (induction s)
  case (Cons c s)
  then show ?case
    by (cases "split_on sep s" rule: list.exhaust; cases "tl (split_on sep s)") auto
qed simp

lemma split_on_no_sep: "p \<in> set (split_on sep s) \<Longrightarrow> sep \<notin> set p"
  by (induction s arbitrary: p) (auto split: if_splits list.splits)

lemma split_on_single: "sep \<notin> set s \<Longrightarrow> split_on sep s = [s]"
  by (induction s) auto

lemma split_on_append: "sep \<notin> set s \<Longrightarrow> split_on sep (s @ sep # t) = s # split_on sep t"
  by (induction s) auto

lemma split_on_join_inverse:
  "ps \<noteq> [] \<Longrightarrow> \<forall>p\<in>set ps. sep \<notin> set p \<Longrightarrow> split_on sep (join [sep] ps) = ps"
proof (induction "[sep]" ps rule: join.induct)
  case (2 s)
  then show ?case by (simp add: split_on_single)
next
  case (3 s t ts)
  then show ?case by (simp add: split_on_append)
qed simp

lemma split_first_correct:
  "sep \<in> set s \<Longrightarrow> s = fst (split_first sep s) @ sep # snd (split_first sep s)"
proof -
  assume "sep \<in> set s"
  then obtain u v where uv: "s = u @ sep # v" "sep \<notin> set u" by (meson split_list_first)
  then have "takeWhile (\<lambda>c. c \<noteq> sep) s = u" "dropWhile (\<lambda>c. c \<noteq> sep) s = sep # v"
    by (auto simp: takeWhile_append dropWhile_append)
  with uv show ?thesis by (simp add: split_first_def)
qed

lemma split_first_fst: "sep \<notin> set (fst (split_first sep s))"
  by (auto simp: split_first_def dest: set_takeWhileD)

lemma split_first_append: "sep \<notin> set u \<Longrightarrow> split_first sep (u @ sep # v) = (u, v)"
  by (auto simp: split_first_def takeWhile_append dropWhile_append)

lemma replace_Nil [simp]: "replace old new [] = []"
  by (simp add: replace.simps)

lemma replace_absent: "\<not> contains s old \<Longrightarrow> replace old new s = s"
proof (induction s)
  case (Cons c s)
  then show ?case by (cases "old = []") (auto simp: replace.simps [of _ _ "c # s"])
qed simp

lemma replace_prefix:
  assumes "old \<noteq> []"
  shows "replace old new (old @ s) = new @ replace old new s"
proof -
  have "old @ s \<noteq> []" and "startswith (old @ s) old" using assms by auto
  then show ?thesis using assms by (simp add: replace.simps [of old new "old @ s"])
qed

lemma replace_char: "replace [a] [b] s = map (\<lambda>c. if c = a then b else c) s"
proof (induction s)
  case (Cons c s)
  then show ?case by (auto simp: replace.simps [of _ _ "c # s"])
qed simp

lemma lstrip_idem [simp]: "lstrip (lstrip s) = lstrip s"
  by (simp add: lstrip_def)

lemma lstrip_decomp: "\<exists>u. s = u @ lstrip s \<and> list_all is_space u"
  unfolding lstrip_def
  by (metis list.pred_set set_takeWhileD takeWhile_dropWhile_id)

lemma set_strip_subset: "set (strip s) \<subseteq> set s"
  by (auto simp: strip_def lstrip_def dest!: set_dropWhileD)

lemma lstrip_no_space: "s \<noteq> [] \<Longrightarrow> \<not> is_space (hd s) \<Longrightarrow> lstrip s = s"
  by (cases s) (auto simp: lstrip_def)

lemma strip_no_space: "s \<noteq> [] \<Longrightarrow> \<not> is_space (hd s) \<Longrightarrow> \<not> is_space (last s) \<Longrightarrow> strip s = s"
  by (simp add: strip_def lstrip_no_space hd_rev)

section \<open>Decimal numbers\<close>

fun nat_digits :: "nat \<Rightarrow> string" where
  "nat_digits n =
     (if n < 10 then [char_of (48 + n)] else nat_digits (n div 10) @ [char_of (48 + n mod 10)])"

declare nat_digits.simps [simp del]

definition str_nat :: "nat \<Rightarrow> string" where
  "str_nat n = nat_digits n"

definition str_int :: "int \<Rightarrow> string" where
  "str_int i = (if i < 0 then CHR ''-'' # nat_digits (nat (- i)) else nat_digits (nat i))"

definition is_digit :: "char \<Rightarrow> bool" where
  "is_digit c = (48 \<le> (of_char c :: nat) \<and> (of_char c :: nat) \<le> 57)"

definition digit_val :: "char \<Rightarrow> nat" where
  "digit_val c = of_char c - 48"

definition digits_val :: "string \<Rightarrow> nat" where
  "digits_val s = foldl (\<lambda>n c. 10 * n + digit_val c) 0 s"

text \<open>The digits of an integer literal: Python accepts single underscores between digits.\<close>

fun int_body :: "string \<Rightarrow> string option" where
  "int_body [] = None"
| "int_body [c] = (if is_digit c then Some [c] else None)"
| "int_body (c # d # s) =
     (if is_digit c
      then if d = CHR ''_'' then map_option ((#) c) (int_body s)
           else map_option ((#) c) (int_body (d # s))
      else None)"

text \<open>
  \<^verbatim>\<open>int(s)\<close>: surrounding white space, an optional sign, then digits.  The interpreter refuses
  literals of more than 4300 digits.
\<close>

definition int_max_str_digits :: nat where
  "int_max_str_digits = 4300"

definition parse_int :: "string \<Rightarrow> int option" where
  "parse_int s =
     (let t = strip s;
          neg = (t \<noteq> [] \<and> hd t = CHR ''-'');
          body = (if t \<noteq> [] \<and> (hd t = CHR ''-'' \<or> hd t = CHR ''+'') then tl t else t)
      in case int_body body of
           None \<Rightarrow> None
         | Some ds \<Rightarrow>
             if int_max_str_digits < length ds then None
             else Some (if neg then - int (digits_val ds) else int (digits_val ds)))"

lemma of_char_digit [simp]: "n < 10 \<Longrightarrow> (of_char (char_of (48 + n) :: char) :: nat) = 48 + n"
  by simp

lemma nat_digits_is_digit: "\<forall>c\<in>set (nat_digits n). is_digit c"
proof (induction n rule: nat_digits.induct)
  case (1 n)
  have d: "is_digit (char_of (48 + m))" if "m < 10" for m :: nat
    using that by (simp add: is_digit_def)
  show ?case
  proof (cases "n < 10")
    case True
    then show ?thesis using d by (simp add: nat_digits.simps [of n])
  next
    case False
    with "1.IH" show ?thesis using d [of "n mod 10"] by (simp add: nat_digits.simps [of n])
  qed
qed

lemma nat_digits_ne [simp]: "nat_digits n \<noteq> []"
  by (simp add: nat_digits.simps [of n])

lemma digits_val_snoc: "digits_val (s @ [c]) = 10 * digits_val s + digit_val c"
  by (simp add: digits_val_def)

lemma digits_val_nat_digits [simp]: "digits_val (nat_digits n) = n"
proof (induction n rule: nat_digits.induct)
  case (1 n)
  show ?case
  proof (cases "n < 10")
    case True
    then show ?thesis by (simp add: nat_digits.simps [of n] digits_val_def digit_val_def)
  next
    case False
    then have "digits_val (nat_digits n) = 10 * (n div 10) + n mod 10"
      using 1 by (simp add: nat_digits.simps [of n] digits_val_snoc digit_val_def)
    then show ?thesis by simp
  qed
qed

lemma str_nat_inj: "str_nat m = str_nat n \<Longrightarrow> m = n"
  using digits_val_nat_digits by (metis str_nat_def)

lemma int_body_digits: "s \<noteq> [] \<Longrightarrow> \<forall>c\<in>set s. is_digit c \<Longrightarrow> int_body s = Some s"
proof (induction s rule: int_body.induct)
  case (3 c d s)
  then have "d \<noteq> CHR ''_''" by (auto simp: is_digit_def)
  with 3 show ?case by simp
qed auto

lemma digit_not_space: "is_digit c \<Longrightarrow> \<not> is_space c"
  by (auto simp: is_digit_def is_space_def)

lemma digit_not_sign: "is_digit c \<Longrightarrow> c \<noteq> CHR ''-'' \<and> c \<noteq> CHR ''+''"
  by (auto simp: is_digit_def)

text \<open>Printing an integer and reading it back is the identity, up to the interpreter's limit.\<close>

lemma parse_int_str_nat:
  assumes "length (nat_digits n) \<le> int_max_str_digits"
  shows "parse_int (nat_digits n) = Some (int n)"
proof -
  let ?s = "nat_digits n"
  have ds: "\<forall>c\<in>set ?s. is_digit c" by (rule nat_digits_is_digit)
  then have hl: "is_digit (hd ?s)" "is_digit (last ?s)" by auto
  then have "strip ?s = ?s" by (simp add: strip_no_space digit_not_space)
  moreover have "int_body ?s = Some ?s" using ds by (simp add: int_body_digits)
  ultimately show ?thesis
    using assms digit_not_sign [OF hl(1)] by (simp add: parse_int_def Let_def)
qed

lemma parse_int_str_int:
  assumes "length (nat_digits (nat \<bar>i\<bar>)) \<le> int_max_str_digits"
  shows "parse_int (str_int i) = Some i"
proof (cases "i < 0")
  case False
  then show ?thesis using assms parse_int_str_nat [of "nat i"] by (simp add: str_int_def)
next
  case True
  let ?s = "nat_digits (nat (- i))"
  have ds: "\<forall>c\<in>set ?s. is_digit c" by (rule nat_digits_is_digit)
  then have "\<not> is_space (last ?s)" by (simp add: digit_not_space)
  then have "strip (CHR ''-'' # ?s) = CHR ''-'' # ?s"
    by (intro strip_no_space) (simp_all add: is_space_def)
  moreover have "int_body ?s = Some ?s" using ds by (simp add: int_body_digits)
  ultimately show ?thesis using assms True by (simp add: parse_int_def str_int_def Let_def)
qed

lemma str_int_chars: "c \<in> set (str_int i) \<Longrightarrow> is_digit c \<or> c = CHR ''-''"
  using nat_digits_is_digit by (auto simp: str_int_def split: if_splits)

lemma str_int_ne [simp]: "str_int i \<noteq> []"
  by (simp add: str_int_def)

lemma str_int_hd: "\<not> is_space (hd (str_int i))"
proof -
  have "is_digit (hd (str_int i)) \<or> hd (str_int i) = CHR ''-''" by (rule str_int_chars [of _ i]) simp
  then show ?thesis using digit_not_space by (elim disjE) (simp_all add: is_space_def)
qed

lemma str_int_last: "is_digit (last (str_int i))"
proof -
  have "is_digit (last (nat_digits n))" for n using nat_digits_is_digit last_in_set nat_digits_ne by blast
  then show ?thesis by (simp add: str_int_def)
qed

section \<open>Pure code that may raise\<close>

definition bindE :: "exn + 'a \<Rightarrow> ('a \<Rightarrow> exn + 'b) \<Rightarrow> exn + 'b" where
  "bindE r f = (case r of Inl e \<Rightarrow> Inl e | Inr x \<Rightarrow> f x)"

lemma bindE_simps [simp]: "bindE (Inl e) f = Inl e" "bindE (Inr x) f = f x"
  by (simp_all add: bindE_def)

lemma bindE_Inr: "bindE r f = Inr y \<longleftrightarrow> (\<exists>x. r = Inr x \<and> f x = Inr y)"
  by (cases r) auto

lemma bindE_Inl: "bindE r f = Inl e \<longleftrightarrow> r = Inl e \<or> (\<exists>x. r = Inr x \<and> f x = Inl e)"
  by (cases r) auto

lemma bindE_cong [fundef_cong]:
  "r = r' \<Longrightarrow> (\<And>x. r' = Inr x \<Longrightarrow> f x = f' x) \<Longrightarrow> bindE r f = bindE r' f'"
  by (cases r') auto

fun mapE :: "('a \<Rightarrow> exn + 'b) \<Rightarrow> 'a list \<Rightarrow> exn + 'b list" where
  "mapE f [] = Inr []"
| "mapE f (x # xs) = bindE (f x) (\<lambda>y. bindE (mapE f xs) (\<lambda>ys. Inr (y # ys)))"

lemma mapE_cong [fundef_cong]:
  "xs = ys \<Longrightarrow> (\<And>x. x \<in> set ys \<Longrightarrow> f x = g x) \<Longrightarrow> mapE f xs = mapE g ys"
  by (induction ys arbitrary: xs) auto

lemma mapE_Inr: "mapE f xs = Inr ys \<longleftrightarrow> list_all2 (\<lambda>x y. f x = Inr y) xs ys"
proof (induction xs arbitrary: ys)
  case (Cons x xs)
  then show ?case by (cases ys) (auto simp: bindE_Inr)
qed auto

end
