(* ===== verification/PyFloat.thy ===== *)
theory PyFloat
  imports Prelude Complex_Main
begin

text \<open>
  Python's \<^verbatim>\<open>float\<close>, IEEE 754 binary64 with rounding to nearest even, as far as the coverage
  reporter uses it: the quotient of two integers, sums, products, quotients, comparisons, the
  parser of \<^verbatim>\<open>float(s)\<close> and the \<^verbatim>\<open>.2%\<close> format.  A finite value is the rational number it
  denotes, so the two zeros are identified.

  \<^item> \<open>fl\<close> rounds a rational to the nearest value with a 53-bit significand (and the least
    exponent -1074), the correctly rounded result that Python promises for \<open>int / int\<close> and
    that IEEE 754 promises for the basic operations;
  \<^item> the locale \<open>rounding\<close> is the contract that clients use: monotone, idempotent, odd and exact
    at 0 and 1; it is interpreted on \<open>fl\<close>.
\<close>

section \<open>Rounding to nearest even\<close>

definition round_half_even :: "rat \<Rightarrow> int" where
  "round_half_even q =
     (let f = \<lfloor>q\<rfloor>; d = q - of_int f
      in if d < 1/2 then f else if 1/2 < d then f + 1 else if even f then f else f + 1)"

lemma rhe_bounds: "\<lfloor>q\<rfloor> \<le> round_half_even q \<and> round_half_even q \<le> \<lfloor>q\<rfloor> + 1"
  by (simp add: round_half_even_def Let_def)

lemma rhe_of_int [simp]: "round_half_even (of_int i) = i"
  by (simp add: round_half_even_def)

lemma rhe_0 [simp]: "round_half_even 0 = 0"
  using rhe_of_int [of 0] by (simp del: rhe_of_int)

lemma rhe_mono:
  assumes "x \<le> y"
  shows "round_half_even x \<le> round_half_even y"
proof (cases "\<lfloor>x\<rfloor> = \<lfloor>y\<rfloor>")
  case True
  with assms have "x - of_int \<lfloor>x\<rfloor> \<le> y - of_int \<lfloor>y\<rfloor>" by simp
  with True show ?thesis by (auto simp: round_half_even_def Let_def)
next
  case False
  with assms have "\<lfloor>x\<rfloor> + 1 \<le> \<lfloor>y\<rfloor>" using floor_mono [OF assms] by simp
  then show ?thesis using rhe_bounds [of x] rhe_bounds [of y] by linarith
qed

lemma rhe_le_of_int: "q \<le> of_int i \<Longrightarrow> round_half_even q \<le> i"
  using rhe_mono [of q "of_int i"] by simp

lemma rhe_ge_of_int: "of_int i \<le> q \<Longrightarrow> i \<le> round_half_even q"
  using rhe_mono [of "of_int i" q] by simp

lemma rhe_nearest: "\<bar>of_int (round_half_even q) - q\<bar> \<le> 1/2"
proof -
  have "of_int \<lfloor>q\<rfloor> \<le> q" and "q < of_int \<lfloor>q\<rfloor> + 1" by linarith+
  then show ?thesis by (simp add: round_half_even_def Let_def abs_if) linarith
qed

definition pow2 :: "int \<Rightarrow> rat" where
  "pow2 e = (if 0 \<le> e then 2 ^ nat e else 1 / 2 ^ nat (- e))"

lemma pow2_pos [simp]: "0 < pow2 e"
  by (simp add: pow2_def)

lemma pow2_nonneg [simp]: "0 \<le> pow2 e"
  using pow2_pos [of e] by linarith

lemma pow2_nonzero [simp]: "pow2 e \<noteq> 0"
  using pow2_pos [of e] by linarith

lemma pow2_powi: "pow2 e = power_int 2 e"
  by (simp add: pow2_def power_int_def inverse_eq_divide power_one_over)

lemma pow2_add: "pow2 (a + b) = pow2 a * pow2 b"
  by (simp add: pow2_powi power_int_add)

lemma pow2_mono: "a \<le> b \<Longrightarrow> pow2 a \<le> pow2 b"
  by (simp add: pow2_powi power_int_increasing)

lemma pow2_less: "a < b \<Longrightarrow> pow2 a < pow2 b"
  by (simp add: pow2_powi power_int_strict_increasing)

lemma pow2_0 [simp]: "pow2 0 = 1"
  by (simp add: pow2_def)

lemma pow2_nat: "0 \<le> e \<Longrightarrow> pow2 e = of_int (2 ^ nat e)"
  by (simp add: pow2_def)

fun bit_length :: "nat \<Rightarrow> nat" where
  "bit_length n = (if n = 0 then 0 else Suc (bit_length (n div 2)))"

declare bit_length.simps [simp del]

lemma bit_length_bounds: "0 < n \<Longrightarrow> 2 ^ (bit_length n - 1) \<le> n \<and> n < 2 ^ bit_length n"
proof (induction n rule: bit_length.induct)
  case (1 n)
  show ?case
  proof (cases "n div 2 = 0")
    case True
    with 1 have "n = 1" by linarith
    then show ?thesis by (simp add: bit_length.simps [of "Suc 0"] bit_length.simps [of 0])
  next
    case False
    then have IH: "2 ^ (bit_length (n div 2) - 1) \<le> n div 2" "n div 2 < 2 ^ bit_length (n div 2)"
      using 1 by auto
    have pos: "0 < bit_length (n div 2)" using False by (simp add: bit_length.simps [of "n div 2"])
    have e: "(2::nat) ^ bit_length (n div 2) = 2 * 2 ^ (bit_length (n div 2) - 1)"
      using pos by (simp flip: power_Suc)
    have "2 ^ bit_length (n div 2) \<le> n" using IH(1) e by linarith
    moreover have "n < 2 ^ Suc (bit_length (n div 2))" using IH(2) by simp
    ultimately show ?thesis using 1 by (simp add: bit_length.simps [of n])
  qed
qed

text \<open>The binary exponent \<open>k\<close> of a positive rational: \<open>2 powi k \<le> r < 2 powi (k + 1)\<close>.\<close>

definition ilog2 :: "rat \<Rightarrow> int" where
  "ilog2 r =
     (let (n, d) = quotient_of r;
          k = int (bit_length (nat n)) - int (bit_length (nat d))
      in if pow2 k \<le> r then k else k - 1)"

lemma ilog2_bounds:
  assumes "0 < r"
  shows "pow2 (ilog2 r) \<le> r \<and> r < pow2 (ilog2 r + 1)"
proof -
  obtain n d where nd: "quotient_of r = (n, d)" by fastforce
  then have d: "0 < d" using quotient_of_denom_pos by blast
  have r: "r = of_int n / of_int d" using nd quotient_of_div by blast
  with assms d have n: "0 < n" by (simp add: zero_less_divide_iff)
  let ?a = "bit_length (nat n)" and ?b = "bit_length (nat d)"
  let ?k = "int ?a - int ?b"
  have apos: "0 < ?a" and bpos: "0 < ?b"
    using n d by (simp_all add: bit_length.simps [of "nat n"] bit_length.simps [of "nat d"])
  have toI: "of_int m = (of_nat (nat m) :: rat)" if "0 < m" for m using that by simp
  have bn: "2 ^ (?a - 1) \<le> (of_int n :: rat)" "(of_int n :: rat) < 2 ^ ?a"
    using bit_length_bounds [of "nat n"] n
    unfolding toI [OF n] by (metis of_nat_le_iff of_nat_numeral of_nat_power zero_less_nat_eq)
      (metis bit_length_bounds n of_nat_less_iff of_nat_numeral of_nat_power zero_less_nat_eq)
  have bd: "2 ^ (?b - 1) \<le> (of_int d :: rat)" "(of_int d :: rat) < 2 ^ ?b"
    using bit_length_bounds [of "nat d"] d
    unfolding toI [OF d] by (metis of_nat_le_iff of_nat_numeral of_nat_power zero_less_nat_eq)
      (metis bit_length_bounds d of_nat_less_iff of_nat_numeral of_nat_power zero_less_nat_eq)
  have p: "2 ^ m = pow2 (int m)" for m by (simp add: pow2_def)
  have up: "r < pow2 (?k + 1)"
  proof -
    have "r < 2 ^ ?a / 2 ^ (?b - 1)"
      unfolding r using bn bd d n by (intro frac_less) auto
    also have "\<dots> = pow2 (?k + 1)"
      using bpos by (simp add: p field_simps flip: pow2_add)
    finally show ?thesis .
  qed
  have lo: "pow2 (?k - 1) \<le> r"
  proof -
    have "pow2 (?k - 1) = 2 ^ (?a - 1) / 2 ^ ?b"
      using apos by (simp add: p field_simps flip: pow2_add)
    also have "\<dots> \<le> r"
      unfolding r using bn bd d n by (intro frac_le) auto
    finally show ?thesis .
  qed
  show ?thesis using up lo by (auto simp: ilog2_def nd Let_def)
qed

lemma ilog2_mono:
  assumes "0 < x" "x \<le> y"
  shows "ilog2 x \<le> ilog2 y"
proof (rule ccontr)
  assume "\<not> ?thesis"
  then have "pow2 (ilog2 y + 1) \<le> pow2 (ilog2 x)" by (intro pow2_mono) simp
  then show False using ilog2_bounds [of x] ilog2_bounds [of y] assms by linarith
qed

section \<open>binary64\<close>

text \<open>The exponent of the last place of a positive rational: 53 significant bits, never below
  the least exponent of the subnormal numbers.\<close>

definition ulp_exp :: "rat \<Rightarrow> int" where
  "ulp_exp r = max (ilog2 r - 52) (-1074)"

definition fl_pos :: "rat \<Rightarrow> rat" where
  "fl_pos r = of_int (round_half_even (r / pow2 (ulp_exp r))) * pow2 (ulp_exp r)"

definition fl :: "rat \<Rightarrow> rat" where
  "fl r = (if r = 0 then 0 else if 0 < r then fl_pos r else - fl_pos (- r))"

lemma fl_0 [simp]: "fl 0 = 0"
  by (simp add: fl_def)

lemma fl_minus: "fl (- r) = - fl r"
  by (simp add: fl_def)

text \<open>A number whose significand fits is not changed.\<close>

lemma fl_pos_exact:
  assumes "r = of_int m * pow2 (ulp_exp r)"
  shows "fl_pos r = r"
  using assms by (simp add: fl_pos_def) (metis nonzero_mult_div_cancel_right pow2_nonzero rhe_of_int)

lemma fl_pos_nonneg: "0 < r \<Longrightarrow> 0 \<le> fl_pos r"
  unfolding fl_pos_def using rhe_ge_of_int [of 0 "r / pow2 (ulp_exp r)"] by simp

text \<open>Rounding stays within the binade: at most the next power of two and at least its own.\<close>

lemma fl_pos_le_pow2:
  assumes "0 < r" "r \<le> pow2 k" "ulp_exp r \<le> k"
  shows "fl_pos r \<le> pow2 k"
proof -
  let ?u = "ulp_exp r"
  have "r / pow2 ?u \<le> pow2 (k - ?u)"
    using assms pow2_add [of "k - ?u" ?u] by (simp add: field_simps)
  then have "round_half_even (r / pow2 ?u) \<le> 2 ^ nat (k - ?u)"
    using assms(3) by (intro rhe_le_of_int) (simp add: pow2_def)
  then have "of_int (round_half_even (r / pow2 ?u)) \<le> (of_int (2 ^ nat (k - ?u)) :: rat)"
    by (simp only: of_int_le_iff)
  then have "of_int (round_half_even (r / pow2 ?u)) \<le> pow2 (k - ?u)"
    using assms(3) by (simp add: pow2_nat)
  then show ?thesis using pow2_add [of "k - ?u" ?u] by (simp add: fl_pos_def field_simps)
qed

lemma fl_pos_ge_pow2:
  assumes "0 < r" "pow2 k \<le> r" "ulp_exp r \<le> k"
  shows "pow2 k \<le> fl_pos r"
proof -
  let ?u = "ulp_exp r"
  have "pow2 (k - ?u) \<le> r / pow2 ?u"
    using assms pow2_add [of "k - ?u" ?u] by (simp add: field_simps)
  then have "2 ^ nat (k - ?u) \<le> round_half_even (r / pow2 ?u)"
    using assms(3) by (intro rhe_ge_of_int) (simp add: pow2_def)
  then have "of_int (2 ^ nat (k - ?u)) \<le> (of_int (round_half_even (r / pow2 ?u)) :: rat)"
    by (simp only: of_int_le_iff)
  then have "pow2 (k - ?u) \<le> of_int (round_half_even (r / pow2 ?u))"
    using assms(3) by (simp add: pow2_nat)
  then show ?thesis using pow2_add [of "k - ?u" ?u] by (simp add: fl_pos_def field_simps)
qed

lemma fl_pos_mono:
  assumes "0 < x" "x \<le> y"
  shows "fl_pos x \<le> fl_pos y"
proof (cases "ulp_exp x = ulp_exp y")
  case True
  have "x / pow2 (ulp_exp x) \<le> y / pow2 (ulp_exp y)"
    using True assms by (simp add: divide_right_mono)
  then show ?thesis using True rhe_mono by (simp add: fl_pos_def)
next
  case False
  have l: "ilog2 x \<le> ilog2 y" using assms by (rule ilog2_mono)
  with False have lt: "ilog2 x + 1 \<le> ilog2 y" and u: "ulp_exp y = ilog2 y - 52" "-1074 < ilog2 y - 52"
    by (auto simp: ulp_exp_def)
  have y: "0 < y" using assms by simp
  let ?k = "max (ilog2 x + 1) (ulp_exp x)"
  have "x \<le> pow2 ?k"
    using ilog2_bounds [OF assms(1)] pow2_mono [of "ilog2 x + 1" ?k] by linarith
  then have "fl_pos x \<le> pow2 ?k" using assms(1) by (intro fl_pos_le_pow2) auto
  also have "\<dots> \<le> pow2 (ilog2 y)" using lt u by (intro pow2_mono) (auto simp: ulp_exp_def)
  also have "\<dots> \<le> fl_pos y"
    using ilog2_bounds [OF y] u y by (intro fl_pos_ge_pow2) auto
  finally show ?thesis .
qed

lemma fl_mono: "x \<le> y \<Longrightarrow> fl x \<le> fl y"
  using fl_pos_mono [of x y] fl_pos_mono [of "- y" "- x"] fl_pos_nonneg [of y] fl_pos_nonneg [of "- x"]
  by (auto simp: fl_def)

text \<open>Every number with a significand of at most 53 bits and an exponent of at least -1074 is
  representable.\<close>

lemma ulp_exp_le:
  assumes "0 < r" "r < pow2 (e + 53)" "-1074 \<le> e"
  shows "ulp_exp r \<le> e"
proof -
  have "pow2 (ilog2 r) < pow2 (e + 53)" using ilog2_bounds [OF assms(1)] assms(2) by linarith
  then have "ilog2 r < e + 53" using pow2_mono [of "e + 53" "ilog2 r"] by linarith
  then show ?thesis using assms(3) by (simp add: ulp_exp_def)
qed

lemma fl_pos_multiple:
  assumes "0 < of_int m * pow2 e" "ulp_exp (of_int m * pow2 e) \<le> e"
  shows "fl_pos (of_int m * pow2 e) = of_int m * pow2 e"
proof (rule fl_pos_exact)
  let ?u = "ulp_exp (of_int m * pow2 e)"
  have "pow2 e = pow2 (e - ?u) * pow2 ?u" by (simp flip: pow2_add)
  then show "of_int m * pow2 e = of_int (m * 2 ^ nat (e - ?u)) * pow2 ?u"
    using assms(2) by (simp add: pow2_nat [of "e - ?u"])
qed

lemma fl_representable:
  assumes "0 < m" "m \<le> 2 ^ 53" "-1074 \<le> e"
  shows "fl_pos (of_int m * pow2 e) = of_int m * pow2 e"
proof (cases "m = 2 ^ 53")
  case False
  with assms have "m < 2 ^ 53" by simp
  then have "(of_int m :: rat) < of_int (2 ^ 53)" by (simp only: of_int_less_iff)
  then have "of_int m < pow2 53" by (simp add: pow2_nat)
  then have "of_int m * pow2 e < pow2 53 * pow2 e" by (rule mult_strict_right_mono) simp
  then have "of_int m * pow2 e < pow2 (e + 53)" by (simp add: pow2_add mult.commute)
  then show ?thesis using assms by (intro fl_pos_multiple ulp_exp_le) auto
next
  case True
  have e: "of_int m * pow2 e = of_int (2 ^ 52) * pow2 (e + 1)"
    using True pow2_add [of e 1] by (simp add: pow2_def [of 1])
  have "(of_int (2 ^ 52) :: rat) < pow2 53" by (simp add: pow2_nat)
  then have "of_int (2 ^ 52) * pow2 (e + 1) < pow2 53 * pow2 (e + 1)"
    by (rule mult_strict_right_mono) simp
  then have "of_int (2 ^ 52) * pow2 (e + 1) < pow2 (e + 1 + 53)"
    by (simp only: pow2_add [of "e + 1" 53] mult.commute)
  then show ?thesis
    unfolding e using assms by (intro fl_pos_multiple ulp_exp_le) auto
qed

lemma fl_pos_shape:
  assumes "0 < r"
  shows "\<exists>m. fl_pos r = of_int m * pow2 (ulp_exp r) \<and> 0 \<le> m \<and> m \<le> 2 ^ 53"
proof -
  let ?u = "ulp_exp r" and ?m = "round_half_even (r / pow2 (ulp_exp r))"
  have "pow2 (ilog2 r + 1) \<le> pow2 (?u + 53)" by (intro pow2_mono) (simp add: ulp_exp_def)
  then have "r \<le> pow2 53 * pow2 ?u"
    using ilog2_bounds [OF assms] by (simp add: pow2_add mult.commute)
  then have "r / pow2 ?u \<le> of_int (2 ^ 53)" by (simp add: pow2_nat divide_le_eq)
  then have "?m \<le> 2 ^ 53" by (rule rhe_le_of_int)
  moreover have "0 \<le> ?m" using assms rhe_ge_of_int [of 0 "r / pow2 ?u"] by simp
  ultimately show ?thesis by (auto simp: fl_pos_def)
qed

lemma fl_pos_idem: "0 < r \<Longrightarrow> 0 < fl_pos r \<Longrightarrow> fl_pos (fl_pos r) = fl_pos r"
proof -
  assume r: "0 < r" and p: "0 < fl_pos r"
  then obtain m where m: "fl_pos r = of_int m * pow2 (ulp_exp r)" "0 \<le> m" "m \<le> 2 ^ 53"
    using fl_pos_shape by blast
  with p have "0 < m" by (cases "m = 0") auto
  with m show ?thesis by (simp add: fl_representable ulp_exp_def)
qed

lemma fl_idem [simp]: "fl (fl r) = fl r"
proof -
  have pos: "fl (fl_pos q) = fl_pos q" if "0 < q" for q
    using fl_pos_nonneg [OF that] fl_pos_idem [OF that] by (auto simp: fl_def)
  show ?thesis
    using pos [of r] pos [of "- r"] fl_minus [of "fl_pos (- r)"] by (auto simp: fl_def [of r])
qed

lemma fl_of_int:
  assumes "\<bar>n\<bar> \<le> 2 ^ 53"
  shows "fl (of_int n) = of_int n"
  using assms fl_representable [of n 0] fl_representable [of "- n" 0]
  by (auto simp: fl_def)

lemma fl_1 [simp]: "fl 1 = 1"
  using fl_of_int [of 1] by simp

text \<open>A ratio below one that is not closer to one than half a unit in the last place stays
  below one.\<close>

lemma fl_less_one:
  assumes "x \<le> 1 - 1 / 2 ^ 53"
  shows "fl x < 1"
proof -
  have "of_int (2 ^ 53 - 1) * pow2 (-53) = 1 - 1 / 2 ^ 53"
    by (simp add: pow2_def)
  moreover have "fl_pos (of_int (2 ^ 53 - 1) * pow2 (-53)) = of_int (2 ^ 53 - 1) * pow2 (-53)"
    by (rule fl_representable) simp_all
  ultimately have "fl_pos (1 - 1 / 2 ^ 53) = 1 - 1 / 2 ^ 53" by (simp only:)
  then have "fl (1 - 1 / 2 ^ 53) = 1 - 1 / 2 ^ 53" by (simp add: fl_def)
  then have "fl x \<le> 1 - 1 / 2 ^ 53" using fl_mono [OF assms] by simp
  then show ?thesis by (rule order_le_less_trans) simp
qed

section \<open>The contract of a rounding function\<close>

locale rounding =
  fixes rnd :: "rat \<Rightarrow> rat"
  assumes mono: "x \<le> y \<Longrightarrow> rnd x \<le> rnd y"
    and idem: "rnd (rnd x) = rnd x"
    and odd: "rnd (- x) = - rnd x"
    and one: "rnd 1 = 1"
begin

lemma zero: "rnd 0 = 0"
  using odd [of 0] by simp

lemma unit_interval: "0 \<le> x \<Longrightarrow> x \<le> 1 \<Longrightarrow> 0 \<le> rnd x \<and> rnd x \<le> 1"
  using mono [of 0 x] mono [of x 1] zero one by simp

lemma less_reflect: "rnd x < rnd y \<Longrightarrow> x < y"
  using mono [of y x] by (meson leD leI)

text \<open>Comparing a rounded number with a representable bound is comparing exactly, on the side
  of the bound.\<close>

lemma ge_representable: "b \<le> x \<Longrightarrow> rnd b = b \<Longrightarrow> b \<le> rnd x"
  using mono [of b x] by simp

lemma le_representable: "x \<le> b \<Longrightarrow> rnd b = b \<Longrightarrow> rnd x \<le> b"
  using mono [of x b] by simp

end

interpretation fl: rounding fl
  by unfold_locales (simp_all add: fl_mono fl_minus)

section \<open>Python floats\<close>

datatype pyfloat = Fin rat | Inf bool | NaN

text \<open>\<open>Inf True\<close> is the negative infinity.\<close>

definition round_float :: "rat \<Rightarrow> pyfloat" where
  "round_float r = (let v = fl r in if pow2 1024 \<le> \<bar>v\<bar> then Inf (v < 0) else Fin v)"

text \<open>\<^verbatim>\<open>a / b\<close> on integers: correctly rounded, with an error instead of an infinity.\<close>

definition int_truediv :: "int \<Rightarrow> int \<Rightarrow> exn + pyfloat" where
  "int_truediv a b =
     (if b = 0 then Inl ZeroDivisionError
      else (case round_float (of_int a / of_int b) of
              Fin v \<Rightarrow> Inr (Fin v)
            | _ \<Rightarrow> Inl (OverflowError ''integer division result too large for a float'')))"

fun fadd :: "pyfloat \<Rightarrow> pyfloat \<Rightarrow> pyfloat" where
  "fadd (Fin x) (Fin y) = round_float (x + y)"
| "fadd (Inf a) (Inf b) = (if a = b then Inf a else NaN)"
| "fadd (Inf a) (Fin _) = Inf a"
| "fadd (Fin _) (Inf b) = Inf b"
| "fadd _ _ = NaN"

text \<open>\<^verbatim>\<open>x * n\<close> and \<^verbatim>\<open>x / n\<close> for a positive integer \<open>n\<close> that is exactly a float.\<close>

fun fmul_pos :: "pyfloat \<Rightarrow> nat \<Rightarrow> pyfloat" where
  "fmul_pos (Fin x) n = round_float (x * of_nat n)"
| "fmul_pos y n = y"

fun fdiv_pos :: "pyfloat \<Rightarrow> nat \<Rightarrow> pyfloat" where
  "fdiv_pos (Fin x) n = round_float (x / of_nat n)"
| "fdiv_pos y n = y"

fun flt :: "pyfloat \<Rightarrow> pyfloat \<Rightarrow> bool" where
  "flt (Fin x) (Fin y) = (x < y)"
| "flt (Inf a) (Inf b) = (a \<and> \<not> b)"
| "flt (Inf a) (Fin _) = a"
| "flt (Fin _) (Inf b) = (\<not> b)"
| "flt _ _ = False"

fun fle :: "pyfloat \<Rightarrow> pyfloat \<Rightarrow> bool" where
  "fle NaN y = False"
| "fle x NaN = False"
| "fle x y = (x = y \<or> flt x y)"

lemma round_float_Fin: "round_float r = Fin v \<Longrightarrow> v = fl r"
  by (auto simp: round_float_def Let_def split: if_splits)

lemma round_float_small:
  assumes "\<bar>r\<bar> \<le> 1"
  shows "round_float r = Fin (fl r)"
proof -
  have "\<bar>fl r\<bar> \<le> 1"
    using assms fl.le_representable [of r 1] fl.ge_representable [of "-1" r] fl_minus [of 1]
    by (auto simp: abs_le_iff)
  also have "1 < pow2 1024" using pow2_less [of 0 1024] by simp
  finally show ?thesis by (simp add: round_float_def Let_def)
qed

section \<open>Reading and printing floats\<close>

definition pow10 :: "int \<Rightarrow> rat" where
  "pow10 e = (if 0 \<le> e then 10 ^ nat e else 1 / 10 ^ nat (- e))"

definition opt_digits :: "string \<Rightarrow> string option" where
  "opt_digits s = (if s = [] then Some [] else int_body s)"

definition lower :: "string \<Rightarrow> string" where
  "lower s = map (\<lambda>c. if 65 \<le> (of_char c :: nat) \<and> (of_char c :: nat) \<le> 90
                       then char_of (of_char c + 32 :: nat) else c) s"

definition parse_decimal :: "string \<Rightarrow> rat option" where
  "parse_decimal s =
     (let is_e = (\<lambda>c. c = CHR ''e'' \<or> c = CHR ''E'');
          mant = takeWhile (\<lambda>c. \<not> is_e c) s;
          rest = dropWhile (\<lambda>c. \<not> is_e c) s;
          ip = takeWhile (\<lambda>c. c \<noteq> CHR ''.'') mant;
          fp = tl (dropWhile (\<lambda>c. c \<noteq> CHR ''.'') mant);
          ex = tl rest;
          eneg = (ex \<noteq> [] \<and> hd ex = CHR ''-'');
          ebody = (if ex \<noteq> [] \<and> (hd ex = CHR ''-'' \<or> hd ex = CHR ''+'') then tl ex else ex)
      in case (opt_digits ip, opt_digits fp) of
           (Some i, Some f) \<Rightarrow>
             if i = [] \<and> f = [] then None
             else (case (if rest = [] then Some ''0'' else int_body ebody) of
                     None \<Rightarrow> None
                   | Some e \<Rightarrow>
                       Some (of_nat (digits_val (i @ f)) *
                             pow10 ((if eneg then - int (digits_val e) else int (digits_val e))
                                    - int (length f))))
         | _ \<Rightarrow> None)"

text \<open>\<^verbatim>\<open>float(s)\<close> for a string; \<^const>\<open>None\<close> is the \<^verbatim>\<open>ValueError\<close>.\<close>

definition parse_float :: "string \<Rightarrow> pyfloat option" where
  "parse_float s =
     (let t = strip s;
          neg = (t \<noteq> [] \<and> hd t = CHR ''-'');
          b = (if t \<noteq> [] \<and> (hd t = CHR ''-'' \<or> hd t = CHR ''+'') then tl t else t)
      in if lower b = ''inf'' \<or> lower b = ''infinity'' then Some (Inf neg)
         else if lower b = ''nan'' then Some NaN
         else map_option (\<lambda>r. round_float (if neg then - r else r)) (parse_decimal b))"

definition rjust :: "nat \<Rightarrow> string \<Rightarrow> string" where
  "rjust n s = replicate (n - length s) CHR '' '' @ s"

definition ljust :: "nat \<Rightarrow> string \<Rightarrow> string" where
  "ljust n s = s @ replicate (n - length s) CHR '' ''"

text \<open>A rational rounded to two decimals, half to even.\<close>

definition fixed2 :: "rat \<Rightarrow> string" where
  "fixed2 r =
     (let m = nat (round_half_even (\<bar>r\<bar> * 100))
      in (if r < 0 then ''-'' else []) @ str_nat (m div 100) @ ''.'' @
         str_nat (m mod 100 div 10) @ str_nat (m mod 10))"

text \<open>The format \<^verbatim>\<open>f"{x:>7.2%}"\<close>: times one hundred in binary64, two decimals, width seven.\<close>

definition percent :: "pyfloat \<Rightarrow> string" where
  "percent x = rjust 7
     (case fmul_pos x 100 of
        Fin v \<Rightarrow> fixed2 v @ ''%''
      | Inf neg \<Rightarrow> (if neg then ''-inf%'' else ''inf%'')
      | NaN \<Rightarrow> ''nan%'')"

text \<open>
  \<^verbatim>\<open>repr(x)\<close>: the least number of significant digits that reads back as the same float, in
  positional notation for decimal exponents from -4 to 15.
\<close>

definition dec_exp :: "rat \<Rightarrow> int" where
  "dec_exp x = (let k = ilog2 x * 30103 div 100000 in if pow10 (k + 1) \<le> x then k + 1 else if pow10 k \<le> x then k else k - 1)"

fun shortest_digits :: "rat \<Rightarrow> nat \<Rightarrow> nat \<Rightarrow> int \<times> int" where
  "shortest_digits x n 0 = (round_half_even (x / pow10 (dec_exp x - 16)), dec_exp x - 16)"
| "shortest_digits x n (Suc fuel) =
     (let e = dec_exp x - int n; m = round_half_even (x / pow10 e)
      in if fl (of_int m * pow10 e) = x then (m, e) else shortest_digits x (Suc n) fuel)"

definition repr_pos :: "rat \<Rightarrow> string" where
  "repr_pos x =
     (let (m, e) = shortest_digits x 0 16;
          ds = str_nat (nat m);
          k = e + int (length ds) - 1
      in if -4 \<le> k \<and> k < 16
         then if 0 \<le> e then ds @ replicate (nat e) CHR ''0'' @ ''.0''
              else if 0 \<le> k then take (nat (k + 1)) ds @ ''.'' @ drop (nat (k + 1)) ds
              else ''0.'' @ replicate (nat (- k - 1)) CHR ''0'' @ ds
         else take 1 ds @ (if length ds = 1 then [] else ''.'' @ drop 1 ds) @ ''e'' @
              (if k < 0 then ''-'' else ''+'') @
              (let a = str_nat (nat \<bar>k\<bar>) in if length a < 2 then ''0'' @ a else a))"

fun repr_float :: "pyfloat \<Rightarrow> string" where
  "repr_float (Fin x) =
     (if x = 0 then ''0.0'' else if x < 0 then ''-'' @ repr_pos (- x) else repr_pos x)"
| "repr_float (Inf neg) = (if neg then ''-inf'' else ''inf'')"
| "repr_float NaN = ''nan''"

lemma length_rjust [simp]: "length (rjust n s) = max n (length s)"
  by (simp add: rjust_def)

lemma length_ljust [simp]: "length (ljust n s) = max n (length s)"
  by (simp add: ljust_def)

end
