(* ===== verification/PyJson.thy ===== *)
theory PyJson
  imports PyFloat
begin

text \<open>
  JSON values as \<^verbatim>\<open>json.load\<close> returns them, the reader itself (the grammar of Python's
  \<^verbatim>\<open>json\<close> module: \<^verbatim>\<open>NaN\<close> and the infinities are accepted, the last of repeated member names
  wins), and the operations that the scripts apply to a value of unknown type: truth value,
  type name, \<^verbatim>\<open>in\<close>, subscription and \<^verbatim>\<open>str\<close>.

  A decoding error carries its reason without the line and the column.
\<close>

datatype json =
    JNull
  | JBool bool
  | JInt int
  | JFloat pyfloat
  | JStr string
  | JList "json list"
  | JObj "(string \<times> json) list"

fun truthy :: "json \<Rightarrow> bool" where
  "truthy JNull = False"
| "truthy (JBool b) = b"
| "truthy (JInt i) = (i \<noteq> 0)"
| "truthy (JFloat x) = (x \<noteq> Fin 0)"
| "truthy (JStr s) = (s \<noteq> [])"
| "truthy (JList xs) = (xs \<noteq> [])"
| "truthy (JObj kvs) = (kvs \<noteq> [])"

fun type_name :: "json \<Rightarrow> string" where
  "type_name JNull = ''NoneType''"
| "type_name (JBool _) = ''bool''"
| "type_name (JInt _) = ''int''"
| "type_name (JFloat _) = ''float''"
| "type_name (JStr _) = ''str''"
| "type_name (JList _) = ''list''"
| "type_name (JObj _) = ''dict''"

text \<open>\<^verbatim>\<open>key in data\<close> and \<^verbatim>\<open>data[key]\<close> for a string key.\<close>

fun json_in :: "string \<Rightarrow> json \<Rightarrow> exn + bool" where
  "json_in k (JObj kvs) = Inr (k \<in> set (dict_keys kvs))"
| "json_in k (JList xs) = Inr (JStr k \<in> set xs)"
| "json_in k (JStr s) = Inr (contains s k)"
| "json_in k v = Inl (TypeError (''argument of type '' @ type_name v @ '' is not iterable''))"

fun json_get :: "json \<Rightarrow> string \<Rightarrow> exn + json" where
  "json_get (JObj kvs) k = (case map_of kvs k of None \<Rightarrow> Inl (KeyError k) | Some v \<Rightarrow> Inr v)"
| "json_get (JList xs) k = Inl (TypeError ''list indices must be integers or slices, not str'')"
| "json_get (JStr s) k = Inl (TypeError ''string indices must be integers'')"
| "json_get v k = Inl (TypeError (type_name v @ '' object is not subscriptable''))"

section \<open>str and repr\<close>

definition hex_digit :: "nat \<Rightarrow> char" where
  "hex_digit n = ''0123456789abcdef'' ! n"

text \<open>The quoted form of a string; bytes above 127 belong to printable characters here.\<close>

definition repr_char :: "char \<Rightarrow> char \<Rightarrow> string" where
  "repr_char q c =
     (let n = (of_char c :: nat)
      in if c = q \<or> c = CHR 0x5C then [CHR 0x5C, c]
         else if n = 10 then [CHR 0x5C, CHR ''n'']
         else if n = 13 then [CHR 0x5C, CHR ''r'']
         else if n = 9 then [CHR 0x5C, CHR ''t'']
         else if n < 32 \<or> n = 127
         then [CHR 0x5C, CHR ''x'', hex_digit (n div 16), hex_digit (n mod 16)]
         else [c])"

definition repr_str :: "string \<Rightarrow> string" where
  "repr_str s =
     (let q = (if CHR 0x27 \<in> set s \<and> CHR 0x22 \<notin> set s then CHR 0x22 else CHR 0x27)
      in q # concat (map (repr_char q) s) @ [q])"

text \<open>\<^verbatim>\<open>int(s)\<close>\<close>

definition py_int :: "string \<Rightarrow> exn + int" where
  "py_int s =
     (case parse_int s of
        None \<Rightarrow> Inl (ValueError (''invalid literal for int() with base 10: '' @ repr_str s))
      | Some i \<Rightarrow> Inr i)"

fun json_repr :: "json \<Rightarrow> string" where
  "json_repr JNull = ''None''"
| "json_repr (JBool b) = (if b then ''True'' else ''False'')"
| "json_repr (JInt i) = str_int i"
| "json_repr (JFloat x) = repr_float x"
| "json_repr (JStr s) = repr_str s"
| "json_repr (JList xs) = ''['' @ join '', '' (map json_repr xs) @ '']''"
| "json_repr (JObj kvs) =
     ''{'' @ join '', '' (map (\<lambda>(k, v). repr_str k @ '': '' @ json_repr v) kvs) @ ''}''"

definition json_str :: "json \<Rightarrow> string" where
  "json_str v = (case v of JStr s \<Rightarrow> s | _ \<Rightarrow> json_repr v)"

lemma json_str_JStr [simp]: "json_str (JStr s) = s"
  by (simp add: json_str_def)

section \<open>UTF-8\<close>

definition utf8_encode :: "nat \<Rightarrow> string" where
  "utf8_encode n =
     (if n < 128 then [char_of n]
      else if n < 2048 then [char_of (192 + n div 64), char_of (128 + n mod 64)]
      else if n < 65536
      then [char_of (224 + n div 4096), char_of (128 + n div 64 mod 64), char_of (128 + n mod 64)]
      else [char_of (240 + n div 262144), char_of (128 + n div 4096 mod 64),
            char_of (128 + n div 64 mod 64), char_of (128 + n mod 64)])"

definition is_cont :: "char \<Rightarrow> bool" where
  "is_cont c = (128 \<le> (of_char c :: nat) \<and> (of_char c :: nat) < 192)"

text \<open>Well-formed UTF-8: no overlong forms, no surrogates, nothing above U+10FFFF.\<close>

fun utf8_valid :: "string \<Rightarrow> bool" where
  "utf8_valid [] = True"
| "utf8_valid (a # s) =
     (let n = (of_char a :: nat)
      in if n < 128 then utf8_valid s
         else (case s of
             [] \<Rightarrow> False
           | b # s1 \<Rightarrow>
               if 194 \<le> n \<and> n < 224 then is_cont b \<and> utf8_valid s1
               else (case s1 of
                   [] \<Rightarrow> False
                 | c # s2 \<Rightarrow>
                     if 224 \<le> n \<and> n < 240
                     then is_cont b \<and> is_cont c \<and> (n = 224 \<longrightarrow> 160 \<le> (of_char b :: nat)) \<and>
                          (n = 237 \<longrightarrow> (of_char b :: nat) < 160) \<and> utf8_valid s2
                     else (case s2 of
                         [] \<Rightarrow> False
                       | d # s3 \<Rightarrow>
                           240 \<le> n \<and> n \<le> 244 \<and> is_cont b \<and> is_cont c \<and> is_cont d \<and>
                           (n = 240 \<longrightarrow> 144 \<le> (of_char b :: nat)) \<and>
                           (n = 244 \<longrightarrow> (of_char b :: nat) < 144) \<and> utf8_valid s3))))"

lemma dropWhile_shorter [termination_simp]: "length (dropWhile P s) < Suc (length s)"
  by (simp add: le_imp_less_Suc length_dropWhile_le)

text \<open>The characters (code points) of a string, and Python's \<^verbatim>\<open>len\<close>.\<close>

fun chars :: "string \<Rightarrow> string list" where
  "chars [] = []"
| "chars (c # s) = (c # takeWhile is_cont s) # chars (dropWhile is_cont s)"

definition str_len :: "string \<Rightarrow> nat" where
  "str_len s = length (chars s)"

lemma concat_chars [simp]: "concat (chars s) = s"
  by (induction s rule: chars.induct) auto

lemma chars_append:
  assumes "t = [] \<or> \<not> is_cont (hd t)"
  shows "chars (s @ t) = chars s @ chars t"
  using assms
proof (induction s rule: chars.induct)
  case (2 c s)
  have d: "dropWhile is_cont (s @ t) = dropWhile is_cont s @ t"
    using 2(2) by (cases t) (auto simp: dropWhile_append)
  have tk: "takeWhile is_cont (s @ t) = takeWhile is_cont s"
    using 2(2) by (cases t) (auto simp: takeWhile_append, metis takeWhile_eq_all_conv)
  show ?case using 2 d tk by simp
qed simp

section \<open>The reader\<close>

datatype 'a scan = Got 'a string | Bad exn | NoFuel

fun map_scan_val :: "('a \<Rightarrow> 'b) \<Rightarrow> 'a scan \<Rightarrow> 'b scan" where
  "map_scan_val f (Got x r) = Got (f x) r"
| "map_scan_val f (Bad m) = Bad m"
| "map_scan_val f NoFuel = NoFuel"

definition is_ws :: "char \<Rightarrow> bool" where
  "is_ws c = (c \<in> set [CHR '' '', CHR 0x09, CHR 0x0A, CHR 0x0D])"

definition skip_ws :: "string \<Rightarrow> string" where
  "skip_ws s = dropWhile is_ws s"

definition hex_val :: "char \<Rightarrow> nat option" where
  "hex_val c =
     (let n = (of_char c :: nat)
      in if 48 \<le> n \<and> n \<le> 57 then Some (n - 48)
         else if 97 \<le> n \<and> n \<le> 102 then Some (n - 87)
         else if 65 \<le> n \<and> n \<le> 70 then Some (n - 55) else None)"

fun hex4 :: "string \<Rightarrow> (nat \<times> string) option" where
  "hex4 (a # b # c # d # s) =
     (case (hex_val a, hex_val b, hex_val c, hex_val d) of
        (Some w, Some x, Some y, Some z) \<Rightarrow> Some (4096 * w + 256 * x + 16 * y + z, s)
      | _ \<Rightarrow> None)"
| "hex4 _ = None"

definition simple_escape :: "char \<Rightarrow> char option" where
  "simple_escape c = map_of
     [(CHR 0x22, CHR 0x22), (CHR 0x5C, CHR 0x5C), (CHR ''/'', CHR ''/''), (CHR ''b'', CHR 0x08),
      (CHR ''f'', CHR 0x0C), (CHR ''n'', CHR 0x0A), (CHR ''r'', CHR 0x0D), (CHR ''t'', CHR 0x09)] c"

text \<open>One escape sequence, after its backslash: the bytes it stands for and the rest.\<close>

definition scan_escape :: "string \<Rightarrow> (string \<times> string) option" where
  "scan_escape s =
     (case s of
        [] \<Rightarrow> None
      | c # t \<Rightarrow>
          if c = CHR ''u''
          then (case hex4 t of
              None \<Rightarrow> None
            | Some (hi, t1) \<Rightarrow>
                if 55296 \<le> hi \<and> hi < 56320 \<and> startswith t1 [CHR 0x5C, CHR ''u'']
                then (case hex4 (drop 2 t1) of
                    None \<Rightarrow> None
                  | Some (lo, t2) \<Rightarrow>
                      if 56320 \<le> lo \<and> lo < 57344
                      then Some (utf8_encode (65536 + (hi - 55296) * 1024 + (lo - 56320)), t2)
                      else Some (utf8_encode hi, t1))
                else Some (utf8_encode hi, t1))
          else (case simple_escape c of None \<Rightarrow> None | Some d \<Rightarrow> Some ([d], t)))"

lemma hex4_shorter: "hex4 s = Some (n, t) \<Longrightarrow> length t < length s"
  by (induction s rule: hex4.induct) (auto split: option.splits)

lemma scan_escape_shorter: "scan_escape s = Some (b, t) \<Longrightarrow> length t < length s"
  by (auto simp: scan_escape_def split: list.splits option.splits if_splits dest!: hex4_shorter)

text \<open>The rest of a string literal, after its opening quote.\<close>

function scan_string :: "string \<Rightarrow> string scan" where
  "scan_string s =
     (case s of
        [] \<Rightarrow> Bad (JSONDecodeError ''Unterminated string'')
      | c # t \<Rightarrow>
          if c = CHR 0x22 then Got [] t
          else if c = CHR 0x5C
          then (case scan_escape t of
                  None \<Rightarrow> Bad (JSONDecodeError ''Invalid escape'')
                | Some (b, u) \<Rightarrow> map_scan_val ((@) b) (scan_string u))
          else if (of_char c :: nat) < 32 then Bad (JSONDecodeError ''Invalid control character'')
          else map_scan_val ((#) c) (scan_string t))"
  by pat_completeness auto
termination
  by (relation "measure length") (auto dest: scan_escape_shorter)

declare scan_string.simps [simp del]

text \<open>A number: an integer part without leading zeros, a fraction, an exponent.  Each part is
  its digits and the rest.\<close>

definition scan_int_part :: "string \<Rightarrow> string \<times> string" where
  "scan_int_part s =
     (if startswith s ''0'' then (''0'', tl s) else (takeWhile is_digit s, dropWhile is_digit s))"

definition scan_frac :: "string \<Rightarrow> string \<times> string" where
  "scan_frac s =
     (if startswith s ''.'' \<and> takeWhile is_digit (tl s) \<noteq> []
      then (takeWhile is_digit (tl s), dropWhile is_digit (tl s)) else ([], s))"

definition scan_exp_digits :: "string \<Rightarrow> bool \<Rightarrow> string \<Rightarrow> int option \<times> string" where
  "scan_exp_digits whole neg s =
     (if takeWhile is_digit s = [] then (None, whole)
      else (Some (if neg then - int (digits_val (takeWhile is_digit s))
                  else int (digits_val (takeWhile is_digit s))), dropWhile is_digit s))"

definition scan_exp :: "string \<Rightarrow> int option \<times> string" where
  "scan_exp s =
     (if s \<noteq> [] \<and> (hd s = CHR ''e'' \<or> hd s = CHR ''E'')
      then if startswith (tl s) ''-'' then scan_exp_digits s True (tl (tl s))
           else if startswith (tl s) ''+'' then scan_exp_digits s False (tl (tl s))
           else scan_exp_digits s False (tl s)
      else (None, s))"

definition number_value :: "bool \<Rightarrow> string \<Rightarrow> string \<Rightarrow> int option \<Rightarrow> exn + json" where
  "number_value neg ip fr ex =
     (if fr = [] \<and> ex = None
      then if int_max_str_digits < length ip
           then Inl (ValueError ''Exceeds the limit for integer string conversion'')
           else Inr (JInt (if neg then - int (digits_val ip) else int (digits_val ip)))
      else Inr (JFloat (round_float
             ((if neg then -1 else 1) * of_nat (digits_val (ip @ fr)) * pow10 (- int (length fr)) *
              pow10 (case ex of None \<Rightarrow> 0 | Some e \<Rightarrow> e)))))"

definition scan_number :: "string \<Rightarrow> json scan" where
  "scan_number s =
     (let neg = startswith s ''-'';
          (ip, s1) = scan_int_part (if neg then tl s else s);
          (fr, s2) = scan_frac s1;
          (ex, s3) = scan_exp s2
      in if ip = [] then Bad (JSONDecodeError ''Expecting value'')
         else (case number_value neg ip fr ex of Inl e \<Rightarrow> Bad e | Inr v \<Rightarrow> Got v s3))"

definition scan_constant :: "string \<Rightarrow> (json \<times> string) option" where
  "scan_constant s =
     (if startswith s ''null'' then Some (JNull, drop 4 s)
      else if startswith s ''true'' then Some (JBool True, drop 4 s)
      else if startswith s ''false'' then Some (JBool False, drop 5 s)
      else if startswith s ''NaN'' then Some (JFloat NaN, drop 3 s)
      else if startswith s ''Infinity'' then Some (JFloat (Inf False), drop 8 s)
      else if startswith s ''-Infinity'' then Some (JFloat (Inf True), drop 9 s)
      else None)"

text \<open>Values, the elements of an array and the members of an object.  Each call spends one unit
  of fuel and, as shown below, consumes at least one character.\<close>

fun scan_value :: "nat \<Rightarrow> string \<Rightarrow> json scan"
and scan_elems :: "nat \<Rightarrow> json list \<Rightarrow> string \<Rightarrow> json list scan"
and scan_members :: "nat \<Rightarrow> (string \<times> json) list \<Rightarrow> string \<Rightarrow> (string \<times> json) list scan"
where
  "scan_value 0 s = NoFuel"
| "scan_value (Suc n) s =
     (if s = [] then Bad (JSONDecodeError ''Expecting value'')
      else if hd s = CHR 0x22 then map_scan_val JStr (scan_string (tl s))
      else if hd s = CHR ''{''
      then (if startswith (skip_ws (tl s)) ''}'' then Got (JObj []) (tl (skip_ws (tl s)))
            else map_scan_val JObj (scan_members n [] (skip_ws (tl s))))
      else if hd s = CHR ''[''
      then (if startswith (skip_ws (tl s)) '']'' then Got (JList []) (tl (skip_ws (tl s)))
            else map_scan_val JList (scan_elems n [] (skip_ws (tl s))))
      else (case scan_constant s of Some (v, r) \<Rightarrow> Got v r | None \<Rightarrow> scan_number s))"
| "scan_elems 0 acc s = NoFuel"
| "scan_elems (Suc n) acc s =
     (case scan_value n s of
        Bad m \<Rightarrow> Bad m
      | NoFuel \<Rightarrow> NoFuel
      | Got v r \<Rightarrow>
          (let u = skip_ws r
           in if startswith u '']'' then Got (acc @ [v]) (tl u)
              else if startswith u '','' then scan_elems n (acc @ [v]) (skip_ws (tl u))
              else Bad (JSONDecodeError ''Expecting ',' delimiter'')))"
| "scan_members 0 acc s = NoFuel"
| "scan_members (Suc n) acc s =
     (if \<not> startswith s [CHR 0x22] then Bad (JSONDecodeError ''Expecting property name enclosed in double quotes'')
      else (case scan_string (tl s) of
          Bad m \<Rightarrow> Bad m
        | NoFuel \<Rightarrow> NoFuel
        | Got k r \<Rightarrow>
            (let u = skip_ws r
             in if \<not> startswith u '':'' then Bad (JSONDecodeError ''Expecting ':' delimiter'')
                else (case scan_value n (skip_ws (tl u)) of
                    Bad m \<Rightarrow> Bad m
                  | NoFuel \<Rightarrow> NoFuel
                  | Got v r2 \<Rightarrow>
                      (let w = skip_ws r2
                       in if startswith w ''}'' then Got (dict_set acc k v) (tl w)
                          else if startswith w '','' then scan_members n (dict_set acc k v) (skip_ws (tl w))
                          else Bad (JSONDecodeError ''Expecting ',' delimiter''))))))"

definition json_loads :: "string \<Rightarrow> exn + json" where
  "json_loads s =
     (if startswith s [CHR 0xEF, CHR 0xBB, CHR 0xBF] then Inl (JSONDecodeError ''Unexpected UTF-8 BOM'')
      else (case scan_value (Suc (2 * length s)) (skip_ws s) of
          Got v r \<Rightarrow> if skip_ws r = [] then Inr v else Inl (JSONDecodeError ''Extra data'')
        | Bad e \<Rightarrow> Inl e
        | NoFuel \<Rightarrow> Inl RecursionError))"

section \<open>The fuel is enough\<close>

lemma length_skip_ws: "length (skip_ws s) \<le> length s"
  by (simp add: skip_ws_def length_dropWhile_le)

lemma map_scan_val_Got: "map_scan_val f x = Got y r \<longleftrightarrow> (\<exists>z. x = Got z r \<and> y = f z)"
  by (cases x) auto

lemma map_scan_val_NoFuel [simp]: "map_scan_val f x = NoFuel \<longleftrightarrow> x = NoFuel"
  by (cases x) auto

lemma scan_string_shorter: "scan_string s = Got x r \<Longrightarrow> length r < length s"
proof (induction s arbitrary: x rule: scan_string.induct)
  case (1 s)
  show ?case
  proof (cases s)
    case Nil
    with "1.prems" show ?thesis by (simp add: scan_string.simps)
  next
    case (Cons c t)
    consider "c = CHR 0x22" | b u where "c = CHR 0x5C" "scan_escape t = Some (b, u)"
      | "c \<noteq> CHR 0x22" "c \<noteq> CHR 0x5C" "\<not> (of_char c :: nat) < 32"
      using "1.prems" Cons by (auto simp: scan_string.simps [of "c # t"] split: if_splits option.splits)
    then show ?thesis
    proof cases
      case 1
      with "1.prems" Cons show ?thesis by (simp add: scan_string.simps [of "CHR 0x22 # t"])
    next
      case (2 b u)
      with "1.prems" Cons obtain z where "scan_string u = Got z r"
        by (auto simp: scan_string.simps [of "CHR 0x5C # t"] map_scan_val_Got)
      with 2 Cons have "length r < length u" using "1.IH"(1) by simp
      with 2 Cons show ?thesis using scan_escape_shorter [of t b u] by simp
    next
      case 3
      with "1.prems" Cons obtain z where "scan_string t = Got z r"
        by (auto simp: scan_string.simps [of "c # t"] map_scan_val_Got)
      with 3 Cons have "length r < length t" using "1.IH"(2) by simp
      with Cons show ?thesis by simp
    qed
  qed
qed

lemma scan_string_fuel: "scan_string s \<noteq> NoFuel"
proof (induction s rule: scan_string.induct)
  case (1 s)
  then show ?case
    by (auto simp: scan_string.simps [of s] split: list.splits option.splits)
qed

lemma scan_constant_shorter: "scan_constant s = Some (v, r) \<Longrightarrow> length r < length s"
  by (auto simp: scan_constant_def startswith_prefix split: if_splits)

lemma scan_int_part_shorter: "scan_int_part s = (ip, r) \<Longrightarrow> ip \<noteq> [] \<Longrightarrow> length r < length s"
proof -
  assume a: "scan_int_part s = (ip, r)" and ne: "ip \<noteq> []"
  then have "length ip + length r = length s"
    by (cases s) (auto simp: scan_int_part_def split: if_splits simp flip: length_append)
  with ne show ?thesis by (cases ip) auto
qed

lemma scan_frac_le: "scan_frac s = (fr, r) \<Longrightarrow> length r \<le> length s"
  using length_dropWhile_le [of is_digit "tl s"]
  by (auto simp: scan_frac_def split: if_splits)

lemma scan_exp_le: "scan_exp s = (ex, r) \<Longrightarrow> length r \<le> length s"
  using length_dropWhile_le [of is_digit "tl s"] length_dropWhile_le [of is_digit "tl (tl s)"]
  by (auto simp: scan_exp_def scan_exp_digits_def split: if_splits)

lemma scan_number_shorter: "scan_number s = Got v r \<Longrightarrow> length r < length s"
proof -
  assume a: "scan_number s = Got v r"
  let ?s0 = "if startswith s ''-'' then tl s else s"
  obtain ip s1 where ip: "scan_int_part ?s0 = (ip, s1)" by fastforce
  obtain fr s2 where fr: "scan_frac s1 = (fr, s2)" by fastforce
  obtain ex s3 where ex: "scan_exp s2 = (ex, s3)" by fastforce
  from a have "ip \<noteq> []" and r: "r = s3"
    by (auto simp: scan_number_def ip fr ex split: if_splits sum.splits)
  then have "length s1 < length ?s0" using ip scan_int_part_shorter by blast
  also have "\<dots> \<le> length s" by simp
  finally show ?thesis using scan_frac_le [OF fr] scan_exp_le [OF ex] r by simp
qed

lemma scan_number_fuel: "scan_number s \<noteq> NoFuel"
  by (auto simp: scan_number_def Let_def split: prod.splits sum.splits)

lemma skip_ws_tl: "s \<noteq> [] \<Longrightarrow> length (skip_ws (tl s)) < length s"
  using length_skip_ws [of "tl s"] by (cases s) auto

lemma startswith_ne: "startswith u (p # ps) \<Longrightarrow> u \<noteq> []"
  by (cases u) auto

text \<open>Every scanner leaves a strictly shorter rest.\<close>

lemma scan_step:
  assumes "length r < length s" "startswith (skip_ws r) (p # ps)"
  shows "length (tl (skip_ws r)) < length s \<and> length (skip_ws (tl (skip_ws r))) < length s"
  using assms length_skip_ws [of r] skip_ws_tl [OF startswith_ne [OF assms(2)]] by simp

lemma scan_shorter:
  shows "scan_value n s = Got v r \<Longrightarrow> length r < length s"
    and "scan_elems n acc s = Got vs r \<Longrightarrow> length r < length s"
    and "scan_members n kvs s = Got ms r \<Longrightarrow> length r < length s"
proof (induction n s and n acc s and n kvs s arbitrary: v r and vs r and ms r
    rule: scan_value_scan_elems_scan_members.induct)
  case (2 n s)
  note IH = "2.IH" and prems = "2.prems"
  have s: "s \<noteq> []" using prems by auto
  have t: "length (tl s) < length s" "length (tl (skip_ws (tl s))) < length s"
    using s skip_ws_tl [OF s] by auto
  consider "hd s = CHR 0x22" | "hd s = CHR ''{''" | "hd s = CHR ''[''"
    | "hd s \<noteq> CHR 0x22" "hd s \<noteq> CHR ''{''" "hd s \<noteq> CHR ''[''" by blast
  then show ?case
  proof cases
    case 1
    then show ?thesis using prems s t
      by (auto simp: map_scan_val_Got dest!: scan_string_shorter)
  next
    case 2
    then show ?thesis using prems s t IH(1) skip_ws_tl [OF s]
      by (auto simp: map_scan_val_Got split: if_splits dest: less_trans)
  next
    case 3
    then show ?thesis using prems s t IH(2) skip_ws_tl [OF s]
      by (auto simp: map_scan_val_Got split: if_splits dest: less_trans)
  next
    case 4
    then show ?thesis using prems s
      by (auto split: option.splits dest: scan_constant_shorter scan_number_shorter)
  qed
next
  case (4 n acc s)
  note IH = "4.IH" and prems = "4.prems"
  obtain v r1 where v: "scan_value n s = Got v r1" using prems by (auto split: scan.splits)
  have r1: "length r1 < length s" using IH(1) [OF v] .
  show ?case
  proof (cases "startswith (skip_ws r1) '']''")
    case True
    then show ?thesis using prems v scan_step [OF r1 True] by simp
  next
    case False
    with prems v have c: "startswith (skip_ws r1) '',''"
      and e: "scan_elems n (acc @ [v]) (skip_ws (tl (skip_ws r1))) = Got vs r"
      by (auto simp: Let_def split: if_splits)
    have "length r < length (skip_ws (tl (skip_ws r1)))" using IH(2) [OF v refl False c e] .
    then show ?thesis using scan_step [OF r1 c] by simp
  qed
next
  case (6 n acc s)
  note IH = "6.IH" and prems = "6.prems"
  have q: "startswith s [CHR 0x22]" using prems by (auto split: if_splits)
  then have tl: "length (tl s) < length s" by (cases s) auto
  obtain k r1 where k: "scan_string (tl s) = Got k r1" using prems q by (auto split: scan.splits)
  have r1: "length r1 < length s" using scan_string_shorter [OF k] tl by simp
  have c: "startswith (skip_ws r1) '':''" using prems q k by (auto simp: Let_def split: if_splits)
  obtain v r2 where v: "scan_value n (skip_ws (tl (skip_ws r1))) = Got v r2"
    using prems q k c by (auto simp: Let_def split: scan.splits)
  have "length r2 < length (skip_ws (tl (skip_ws r1)))"
    using IH(1) q k c v by simp
  then have r2: "length r2 < length s" using scan_step [OF r1 c] by simp
  show ?case
  proof (cases "startswith (skip_ws r2) ''}''")
    case True
    then show ?thesis using prems q k c v scan_step [OF r2 True] by simp
  next
    case False
    with prems q k c v have d: "startswith (skip_ws r2) '',''"
      and e: "scan_members n (dict_set acc k v) (skip_ws (tl (skip_ws r2))) = Got ms r"
      by (auto simp: Let_def split: if_splits)
    have "length r < length (skip_ws (tl (skip_ws r2)))"
      using IH(2) q k c v False d e by simp
    then show ?thesis using scan_step [OF r2 d] by simp
  qed
qed simp_all

lemma scan_fuel:
  shows "2 * length s < n \<Longrightarrow> scan_value n s \<noteq> NoFuel"
    and "Suc (2 * length s) < n \<Longrightarrow> scan_elems n acc s \<noteq> NoFuel"
    and "Suc (2 * length s) < n \<Longrightarrow> scan_members n kvs s \<noteq> NoFuel"
proof (induction n s and n acc s and n kvs s rule: scan_value_scan_elems_scan_members.induct)
  case (2 n s)
  have "2 * length (skip_ws (tl s)) + 1 < n" if "s \<noteq> []"
    using skip_ws_tl [OF that] "2.prems" by linarith
  then show ?case
    using "2.IH" scan_string_fuel scan_number_fuel by (auto split: option.splits)
next
  case (4 n acc s)
  have v: "scan_value n s \<noteq> NoFuel" using "4.IH"(1) "4.prems" by simp
  show ?case
  proof (cases "scan_value n s")
    case (Got v r)
    then have r: "length r < length s" by (rule scan_shorter)
    show ?thesis
    proof (cases "startswith (skip_ws r) '','' \<and> \<not> startswith (skip_ws r) '']''")
      case True
      then have "scan_elems n (acc @ [v]) (skip_ws (tl (skip_ws r))) \<noteq> NoFuel"
        using "4.IH"(2) [OF Got refl] scan_step [OF r] "4.prems" by force
      then show ?thesis using Got True by simp
    next
      case False
      then show ?thesis using Got by (auto simp: Let_def)
    qed
  qed (use v in auto)
next
  case (6 n acc s)
  show ?case
  proof (cases "startswith s [CHR 0x22]")
    case q: True
    then have tl: "length (tl s) < length s" by (cases s) auto
    show ?thesis
    proof (cases "scan_string (tl s)")
      case k: (Got k r)
      then have r: "length r < length s" using scan_string_shorter tl by fastforce
      show ?thesis
      proof (cases "startswith (skip_ws r) '':''")
        case c: True
        let ?s' = "skip_ws (tl (skip_ws r))"
        have s': "length ?s' < length s" using scan_step [OF r c] by simp
        have v: "scan_value n ?s' \<noteq> NoFuel" using "6.IH"(1) q k c s' "6.prems" by simp
        show ?thesis
        proof (cases "scan_value n ?s'")
          case g: (Got v r2)
          then have r2: "length r2 < length s" using scan_shorter(1) [OF g] s' by simp
          show ?thesis
          proof (cases "startswith (skip_ws r2) '','' \<and> \<not> startswith (skip_ws r2) ''}''")
            case True
            then have "scan_members n (dict_set acc k v) (skip_ws (tl (skip_ws r2))) \<noteq> NoFuel"
              using "6.IH"(2) q k c g scan_step [OF r2] "6.prems" by force
            then show ?thesis using q k c g True by simp
          next
            case False
            then show ?thesis using q k c g by (auto simp: Let_def)
          qed
        qed (use v q k c in auto)
      qed (use q k in auto)
    qed (use q scan_string_fuel in auto)
  qed simp
qed simp_all

lemma scan_string_error: "scan_string s = Bad e \<Longrightarrow> is_value_error e"
proof (induction s rule: scan_string.induct)
  case (1 s)
  have m: "map_scan_val f x = Bad e \<longleftrightarrow> x = Bad e" for f :: "string \<Rightarrow> string" and x
    by (cases x) auto
  show ?case
    using 1 by (auto simp: scan_string.simps [of s] m split: list.splits option.splits if_splits)
qed

lemma scan_number_error: "scan_number s = Bad e \<Longrightarrow> is_value_error e"
  by (auto simp: scan_number_def number_value_def Let_def split: prod.splits sum.splits if_splits)

lemma map_scan_val_Bad [simp]: "map_scan_val f x = Bad e \<longleftrightarrow> x = Bad e"
  by (cases x) auto

lemma scan_error:
  shows "scan_value n s = Bad e \<Longrightarrow> is_value_error e"
    and "scan_elems n acc s = Bad e \<Longrightarrow> is_value_error e"
    and "scan_members n kvs s = Bad e \<Longrightarrow> is_value_error e"
proof (induction n s and n acc s and n kvs s rule: scan_value_scan_elems_scan_members.induct)
  case (2 n s)
  then show ?case
    by (auto split: if_splits option.splits dest: scan_string_error scan_number_error)
next
  case (4 n acc s)
  then show ?case by (auto simp: Let_def split: scan.splits if_splits)
next
  case (6 n acc s)
  then show ?case by (auto simp: Let_def split: scan.splits if_splits dest: scan_string_error)
qed simp_all

text \<open>Reading ends with a value or with a \<^verbatim>\<open>ValueError\<close> (of which \<^verbatim>\<open>JSONDecodeError\<close> is a
  subclass): the fuel never runs out.\<close>

lemma json_loads_total:
  assumes "json_loads s = Inl e"
  shows "is_value_error e"
proof -
  have "2 * length (skip_ws s) < Suc (2 * length s)"
    using length_skip_ws [of s] by simp
  then have "scan_value (Suc (2 * length s)) (skip_ws s) \<noteq> NoFuel" by (rule scan_fuel)
  then show ?thesis
    using assms unfolding json_loads_def
    by (auto simp del: scan_value.simps split: scan.splits if_splits dest: scan_error)
qed

end
