(* ===== verification/PyPath.thy ===== *)
theory PyPath
  imports Prelude "HOL-Library.Sublist"
begin

text \<open>
  Path names (\<^verbatim>\<open>pathlib.PurePosixPath\<close>, \<^verbatim>\<open>os.path\<close>) and the file system they name.

  A path is its root and its components, with the empty and the \<^verbatim>\<open>.\<close> components dropped, as
  \<^verbatim>\<open>pathlib\<close> keeps it.  The file system is a tree of directories, files and symbolic links; a
  name is resolved component by component, and the kernel gives up (\<open>ELOOP\<close>) after
  \<open>max_links\<close> links.  \<open>walk\<close> is that resolution; \<open>realpath\<close> is \<^verbatim>\<open>Path.resolve()\<close>,
  which goes on lexically where nothing exists.
\<close>

section \<open>Path names\<close>

datatype path = Path (p_root: string) (p_parts: "string list")

definition leading_slashes :: "string \<Rightarrow> nat" where
  "leading_slashes s = length (takeWhile (\<lambda>c. c = CHR ''/'') s)"

definition slash_root :: "string \<Rightarrow> string" where
  "slash_root s =
     (if leading_slashes s = 0 then [] else if leading_slashes s = 2 then ''//'' else ''/'')"

definition components :: "string \<Rightarrow> string list" where
  "components s = filter (\<lambda>c. c \<noteq> [] \<and> c \<noteq> ''.'') (split_on CHR ''/'' s)"

definition path_of :: "string \<Rightarrow> path" where
  "path_of s = Path (slash_root s) (components s)"

definition str_path :: "path \<Rightarrow> string" where
  "str_path p =
     (if p_root p = [] \<and> p_parts p = [] then ''.'' else p_root p @ join ''/'' (p_parts p))"

definition is_absolute :: "path \<Rightarrow> bool" where
  "is_absolute p = (p_root p \<noteq> [])"

text \<open>\<^verbatim>\<open>p / q\<close>\<close>

definition joinpath :: "path \<Rightarrow> path \<Rightarrow> path" where
  "joinpath p q = (if is_absolute q then q else Path (p_root p) (p_parts p @ p_parts q))"

abbreviation child :: "path \<Rightarrow> string \<Rightarrow> path" where
  "child p name \<equiv> joinpath p (path_of name)"

definition parent :: "path \<Rightarrow> path" where
  "parent p = Path (p_root p) (butlast (p_parts p))"

fun parents_acc :: "string \<Rightarrow> string list \<Rightarrow> path list" where
  "parents_acc r [] = []"
| "parents_acc r (c # rcs) = Path r (rev rcs) # parents_acc r rcs"

definition parents :: "path \<Rightarrow> path list" where
  "parents p = parents_acc (p_root p) (rev (p_parts p))"

definition is_relative_to :: "path \<Rightarrow> path \<Rightarrow> bool" where
  "is_relative_to p q = (p_root p = p_root q \<and> prefix (p_parts q) (p_parts p))"

definition relative_to :: "path \<Rightarrow> path \<Rightarrow> path" where
  "relative_to p q = Path [] (drop (length (p_parts q)) (p_parts p))"

text \<open>The key by which paths are ordered: the components of the printed path.\<close>

definition path_key :: "path \<Rightarrow> string list" where
  "path_key p = split_on CHR ''/'' (str_path p)"

text \<open>Components that a parsed path can have.\<close>

definition plain :: "string \<Rightarrow> bool" where
  "plain c = (c \<noteq> [] \<and> c \<noteq> ''.'' \<and> CHR ''/'' \<notin> set c)"

definition path_wf :: "path \<Rightarrow> bool" where
  "path_wf p = (p_root p \<in> {[], ''/'', ''//''} \<and> list_all plain (p_parts p))"

lemma components_plain: "list_all plain (components s)"
  by (auto simp: components_def list_all_iff plain_def dest: split_on_no_sep)

lemma path_wf_path_of [simp]: "path_wf (path_of s)"
  by (simp add: path_wf_def path_of_def components_plain slash_root_def)

lemma path_wf_joinpath [simp]: "path_wf p \<Longrightarrow> path_wf q \<Longrightarrow> path_wf (joinpath p q)"
  by (simp add: path_wf_def joinpath_def)

lemma path_wf_parent [simp]: "path_wf p \<Longrightarrow> path_wf (parent p)"
  by (auto simp: path_wf_def parent_def list_all_iff dest: in_set_butlastD)

lemma filter_plain: "list_all plain ps \<Longrightarrow> filter (\<lambda>c. c \<noteq> [] \<and> c \<noteq> ''.'') ps = ps"
  by (induction ps) (auto simp: plain_def)

lemma components_join:
  "list_all plain ps \<Longrightarrow> components (join ''/'' ps) = ps"
proof (cases "ps = []")
  case False
  assume ps: "list_all plain ps"
  then have "\<forall>p\<in>set ps. CHR ''/'' \<notin> set p" by (auto simp: list_all_iff plain_def)
  then have "split_on CHR ''/'' (join ''/'' ps) = ps" using False split_on_join_inverse by blast
  then show ?thesis using ps by (simp add: components_def filter_plain)
qed (simp add: components_def)

lemma components_slash [simp]: "components (CHR ''/'' # s) = components s"
  by (simp add: components_def)

lemma plain_hd: "plain c \<Longrightarrow> hd c \<noteq> CHR ''/''"
  by (cases c) (auto simp: plain_def)

lemma leading_slashes_join:
  assumes "list_all plain ps"
  shows "leading_slashes (join ''/'' ps) = 0"
proof (cases ps)
  case (Cons c cs)
  then obtain x xs where x: "c = x # xs" "x \<noteq> CHR ''/''"
    using assms by (cases c) (auto simp: plain_def)
  then have "\<exists>t. join ''/'' ps = x # t" using Cons by (cases cs) auto
  with x show ?thesis by (auto simp: leading_slashes_def)
qed (simp add: leading_slashes_def)

text \<open>Printing a path and parsing it again gives the path back.\<close>

lemma path_of_str_path:
  assumes "path_wf p"
  shows "path_of (str_path p) = p"
proof (cases p)
  case (Path r ps)
  have ps: "list_all plain ps" and r: "r \<in> {[], ''/'', ''//''}"
    using assms Path by (auto simp: path_wf_def)
  have ls: "leading_slashes (CHR ''/'' # s) = Suc (leading_slashes s)" for s
    by (simp add: leading_slashes_def)
  show ?thesis
  proof (cases "r = [] \<and> ps = []")
    case True
    then show ?thesis
      by (simp add: Path str_path_def path_of_def slash_root_def leading_slashes_def components_def)
  next
    case False
    then have "str_path p = r @ join ''/'' ps" by (auto simp: Path str_path_def)
    then show ?thesis
      using r by (auto simp: Path path_of_def slash_root_def components_join [OF ps] ls
          leading_slashes_join [OF ps])
  qed
qed

lemma parents_acc_iff:
  "q \<in> set (parents_acc r rcs) \<longleftrightarrow> (\<exists>k < length rcs. q = Path r (take k (rev rcs)))"
proof (induction rcs)
  case (Cons c rcs)
  have "(\<exists>k < Suc (length rcs). q = Path r (take k (rev rcs @ [c]))) \<longleftrightarrow>
      q = Path r (rev rcs) \<or> (\<exists>k < length rcs. q = Path r (take k (rev rcs)))"
    by (auto simp: less_Suc_eq)
  with Cons show ?case by simp
qed simp

text \<open>The ancestors of a path are exactly the shorter paths it is relative to.\<close>

lemma parents_iff: "q \<in> set (parents p) \<longleftrightarrow> is_relative_to p q \<and> q \<noteq> p"
proof -
  have "q \<in> set (parents p) \<longleftrightarrow> (\<exists>k < length (p_parts p). q = Path (p_root p) (take k (p_parts p)))"
    by (simp add: parents_def parents_acc_iff)
  also have "\<dots> \<longleftrightarrow> is_relative_to p q \<and> q \<noteq> p"
  proof
    assume "\<exists>k < length (p_parts p). q = Path (p_root p) (take k (p_parts p))"
    then show "is_relative_to p q \<and> q \<noteq> p"
      by (cases p) (auto simp: is_relative_to_def take_is_prefix dest!: arg_cong [where f = length])
  next
    assume a: "is_relative_to p q \<and> q \<noteq> p"
    then obtain t where t: "p_parts p = p_parts q @ t" "p_root q = p_root p"
      by (auto simp: is_relative_to_def prefix_def)
    with a have "t \<noteq> []" by (cases p; cases q) auto
    then show "\<exists>k < length (p_parts p). q = Path (p_root p) (take k (p_parts p))"
      using t by (intro exI [of _ "length (p_parts q)"]) (cases q, auto)
  qed
  finally show ?thesis .
qed

lemma is_relative_to_refl [simp]: "is_relative_to p p"
  by (simp add: is_relative_to_def)

lemma is_relative_to_trans: "is_relative_to p q \<Longrightarrow> is_relative_to q r \<Longrightarrow> is_relative_to p r"
  by (auto simp: is_relative_to_def)

lemma is_relative_to_antisym: "is_relative_to p q \<Longrightarrow> is_relative_to q p \<Longrightarrow> p = q"
  by (cases p; cases q) (auto simp: is_relative_to_def)

lemma join_relative_to: "is_relative_to p q \<Longrightarrow> joinpath q (relative_to p q) = p"
  by (cases p; cases q)
    (auto simp: is_relative_to_def relative_to_def joinpath_def is_absolute_def prefix_def)

section \<open>os.path\<close>

definition os_join :: "string \<Rightarrow> string \<Rightarrow> string" where
  "os_join a b =
     (if startswith b ''/'' then b
      else if a = [] \<or> endswith a ''/'' then a @ b else a @ ''/'' @ b)"

fun norm_step :: "bool \<Rightarrow> string list \<Rightarrow> string \<Rightarrow> string list" where
  "norm_step rooted acc c =
     (if c = [] \<or> c = ''.'' then acc
      else if c \<noteq> ''..'' \<or> (\<not> rooted \<and> acc = []) \<or> (acc \<noteq> [] \<and> last acc = ''..'') then acc @ [c]
      else butlast acc)"

definition norm_comps :: "bool \<Rightarrow> string list \<Rightarrow> string list" where
  "norm_comps rooted cs = foldl (norm_step rooted) [] cs"

definition normpath :: "string \<Rightarrow> string" where
  "normpath s =
     (let r = slash_root s; cs = norm_comps (r \<noteq> []) (split_on CHR ''/'' s); t = r @ join ''/'' cs
      in if t = [] then ''.'' else t)"

fun common_prefix :: "'a list \<Rightarrow> 'a list \<Rightarrow> 'a list" where
  "common_prefix (x # xs) (y # ys) = (if x = y then x # common_prefix xs ys else [])"
| "common_prefix _ _ = []"

text \<open>\<^verbatim>\<open>os.path.commonpath([a, b])\<close> on two absolute paths.\<close>

definition commonpath :: "string \<Rightarrow> string \<Rightarrow> string" where
  "commonpath a b = ''/'' @ join ''/'' (common_prefix (components a) (components b))"

lemma common_prefix_prefix: "prefix (common_prefix xs ys) xs" "prefix (common_prefix xs ys) ys"
  by (induction xs ys rule: common_prefix.induct) auto

lemma common_prefix_eq_left: "common_prefix xs ys = xs \<longleftrightarrow> prefix xs ys"
  by (induction xs ys rule: common_prefix.induct) auto

definition no_dotdot :: "string list \<Rightarrow> bool" where
  "no_dotdot cs = (''..'' \<notin> set cs)"

lemma norm_comps_abs:
  assumes "\<forall>c\<in>set cs. CHR ''/'' \<notin> set c"
  shows "list_all plain (norm_comps True cs) \<and> no_dotdot (norm_comps True cs)"
proof -
  have step: "list_all plain (norm_step True acc c) \<and> no_dotdot (norm_step True acc c)"
    if a: "list_all plain acc \<and> no_dotdot acc" "CHR ''/'' \<notin> set c" for acc c
  proof -
    have "acc = [] \<or> last acc \<noteq> ''..''" using a(1) last_in_set by (force simp: no_dotdot_def)
    then have "norm_step True acc c = (if c = [] \<or> c = ''.'' then acc
        else if c \<noteq> ''..'' then acc @ [c] else butlast acc)" by auto
    moreover have "list_all plain (butlast acc) \<and> no_dotdot (butlast acc)"
      using a(1) in_set_butlastD by (force simp: no_dotdot_def list_all_iff)
    ultimately show ?thesis using a by (simp add: plain_def no_dotdot_def)
  qed
  have "list_all plain (foldl (norm_step True) acc cs) \<and> no_dotdot (foldl (norm_step True) acc cs)"
    if "list_all plain acc \<and> no_dotdot acc" for acc
    using that assms
  proof (induction cs arbitrary: acc)
    case (Cons c cs)
    then show ?case using step [of acc c] by simp
  qed simp
  then show ?thesis by (simp add: norm_comps_def no_dotdot_def)
qed

lemma norm_comps_plain:
  "list_all plain cs \<Longrightarrow> no_dotdot cs \<Longrightarrow> norm_comps rooted cs = cs"
proof -
  assume "list_all plain cs" "no_dotdot cs"
  then have "foldl (norm_step rooted) acc cs = acc @ cs" for acc
    by (induction cs arbitrary: acc) (auto simp: no_dotdot_def plain_def)
  then show ?thesis by (simp add: norm_comps_def)
qed

section \<open>The file system\<close>

text \<open>A directory lists its entries in the order in which \<^verbatim>\<open>os.scandir\<close> gives them; a file has
  its bytes and its mode bits.\<close>

datatype node = Dir "(string \<times> node) list" | File string nat | Link string

datatype fs_error = ENOENT | ENOTDIR | ELOOP

fun node_at :: "node \<Rightarrow> string list \<Rightarrow> node option" where
  "node_at n [] = Some n"
| "node_at (Dir es) (c # cs) = (case map_of es c of None \<Rightarrow> None | Some n \<Rightarrow> node_at n cs)"
| "node_at _ (c # cs) = None"

definition max_links :: nat where
  "max_links = 40"

text \<open>
  \<open>walk fs k cur cs\<close> resolves the components \<open>cs\<close> from the directory with the canonical
  components \<open>cur\<close>, following at most \<open>k\<close> links; it returns the canonical components of what is
  named and the links left.
\<close>

function walk :: "node \<Rightarrow> nat \<Rightarrow> string list \<Rightarrow> string list \<Rightarrow> fs_error + string list \<times> nat" where
  "walk fs k cur [] = Inr (cur, k)"
| "walk fs k cur (c # cs) =
     (case node_at fs cur of
        Some (Dir es) \<Rightarrow>
          (if c = [] \<or> c = ''.'' then walk fs k cur cs
           else if c = ''..'' then walk fs k (butlast cur) cs
           else (case map_of es c of
               None \<Rightarrow> Inl ENOENT
             | Some (Link t) \<Rightarrow>
                 (if k = 0 then Inl ELOOP
                  else walk fs (k - 1) (if startswith t ''/'' then [] else cur) (components t @ cs))
             | Some _ \<Rightarrow> walk fs k (cur @ [c]) cs))
      | _ \<Rightarrow> Inl ENOTDIR)"
  by pat_completeness auto
termination
  by (relation "measures [\<lambda>(fs, k, cur, cs). k, \<lambda>(fs, k, cur, cs). length cs]") auto

text \<open>What a name denotes: following a last link (\<open>stat\<close>) or not (\<open>lstat\<close>).\<close>

definition stat_from :: "node \<Rightarrow> nat \<Rightarrow> string list \<Rightarrow> string list \<Rightarrow> fs_error + node" where
  "stat_from fs k cur cs =
     (case walk fs k cur cs of
        Inl e \<Rightarrow> Inl e
      | Inr (cur', _) \<Rightarrow> (case node_at fs cur' of None \<Rightarrow> Inl ENOENT | Some n \<Rightarrow> Inr n))"

definition lookup_last :: "node \<Rightarrow> string list \<Rightarrow> string \<Rightarrow> fs_error + node" where
  "lookup_last fs cur c =
     (case node_at fs cur of
        Some (Dir es) \<Rightarrow> (case map_of es c of None \<Rightarrow> Inl ENOENT | Some n \<Rightarrow> Inr n)
      | _ \<Rightarrow> Inl ENOTDIR)"

definition lstat :: "node \<Rightarrow> string list \<Rightarrow> fs_error + node" where
  "lstat fs cs =
     (if cs = [] then Inr fs
      else if last cs \<in> {[], ''.'', ''..''} then stat_from fs max_links [] cs
      else (case walk fs max_links [] (butlast cs) of
              Inl e \<Rightarrow> Inl e
            | Inr (cur, _) \<Rightarrow> lookup_last fs cur (last cs)))"

definition stat :: "node \<Rightarrow> string list \<Rightarrow> fs_error + node" where
  "stat fs cs = stat_from fs max_links [] cs"

definition exists_at :: "node \<Rightarrow> string list \<Rightarrow> bool" where
  "exists_at fs cs = (case stat fs cs of Inl _ \<Rightarrow> False | Inr _ \<Rightarrow> True)"

definition is_dir_at :: "node \<Rightarrow> string list \<Rightarrow> bool" where
  "is_dir_at fs cs = (case stat fs cs of Inr (Dir _) \<Rightarrow> True | _ \<Rightarrow> False)"

text \<open>The root is a directory, never a link.\<close>

definition readlink_at :: "node \<Rightarrow> string list \<Rightarrow> string option" where
  "readlink_at fs cs =
     (if cs = [] then None else (case lstat fs cs of Inr (Link t) \<Rightarrow> Some t | _ \<Rightarrow> None))"

definition is_symlink_at :: "node \<Rightarrow> string list \<Rightarrow> bool" where
  "is_symlink_at fs cs = (readlink_at fs cs \<noteq> None)"

text \<open>\<^verbatim>\<open>os.path.realpath\<close>: links are followed where they exist, other components are kept.\<close>

function realpath :: "node \<Rightarrow> nat \<Rightarrow> string list \<Rightarrow> string list \<Rightarrow> fs_error + string list" where
  "realpath fs k cur [] = Inr cur"
| "realpath fs k cur (c # cs) =
     (if c = [] \<or> c = ''.'' then realpath fs k cur cs
      else if c = ''..'' then realpath fs k (butlast cur) cs
      else (case lookup_last fs cur c of
          Inr (Link t) \<Rightarrow>
            (if k = 0 then Inl ELOOP
             else realpath fs (k - 1) (if startswith t ''/'' then [] else cur) (components t @ cs))
        | _ \<Rightarrow> realpath fs k (cur @ [c]) cs))"
  by pat_completeness auto
termination
  by (relation "measures [\<lambda>(fs, k, cur, cs). k, \<lambda>(fs, k, cur, cs). length cs]") auto

text \<open>Changes: put a node at a canonical place whose parent is a directory.\<close>

fun put_node :: "node \<Rightarrow> string list \<Rightarrow> node \<Rightarrow> node" where
  "put_node (Dir es) [c] n = Dir (dict_set es c n)"
| "put_node (Dir es) (c # d # cs) n =
     (case map_of es c of
        None \<Rightarrow> Dir es
      | Some m \<Rightarrow> Dir (dict_set es c (put_node m (d # cs) n)))"
| "put_node m _ n = m"

lemma node_at_append: "node_at n (cs @ ds) = (case node_at n cs of None \<Rightarrow> None | Some m \<Rightarrow> node_at m ds)"
  by (induction n cs rule: node_at.induct) (auto split: option.splits)

lemma node_at_put_node:
  assumes "node_at fs cs = Some (Dir es)"
  shows "node_at (put_node fs (cs @ [c]) n) (cs @ [c]) = Some n"
  using assms
proof (induction fs cs rule: node_at.induct)
  case (2 es' d cs)
  then show ?case by (cases cs) (auto split: option.splits)
qed auto

lemma walk_append:
  "walk fs k cur (cs @ ds) =
     (case walk fs k cur cs of Inl e \<Rightarrow> Inl e | Inr (cur', k') \<Rightarrow> walk fs k' cur' ds)"
  by (induction fs k cur cs rule: walk.induct) (auto split: option.splits node.splits sum.splits)

lemma walk_budget: "walk fs k cur cs = Inr (cur', k') \<Longrightarrow> k' \<le> k"
proof (induction fs k cur cs rule: walk.induct)
  case (2 fs k cur c cs)
  then show ?case by (fastforce split: option.splits node.splits if_splits)
qed simp

end
