(* ===== verification/PyIO.thy ===== *)
theory PyIO
  imports PyJson PyPath
begin

text \<open>
  The world the scripts act on and the effect monad in which they are written.

  \<^item> \<open>world\<close> holds the file system, the working directory, the environment, the trace of what the
    program has done (log records, output, commands), and two parameters that stand for code
    outside the repository: \<open>w_exec\<close>, the programs that \<^verbatim>\<open>subprocess\<close> starts (docker, git,
    bazel), which see the history and may change the file system, and \<open>w_order\<close>, the iteration
    order of Python's hash sets.
  \<^item> an action takes a world and returns an exception or a value, with the world it leaves;
  \<^item> \<open>wp\<close> is the weakest precondition of an action, with its rules in the collection
    \<open>wp\<close>; the locale \<open>frame\<close> gives the rules for relations between the worlds before and
    after an action, and is interpreted on \<open>trace_ext\<close> and \<open>same_setting\<close>.
\<close>

section \<open>The world\<close>

datatype level = INFO | WARNING | ERROR

datatype stream = Stdout | Stderr

datatype event =
    Log level string
  | Print stream string
  | Exec "string list"

text \<open>How a started program ends: with an exit code and its output, by not being found, or by
  the user's interrupt while the script waits for it.\<close>

datatype proc = Done int string string | NoProgram | Interrupt

record world =
  w_fs :: node
  w_cwd :: "string list"
  w_env :: "(string \<times> string) list"
  w_trace :: "event list"
  w_exec :: "event list \<Rightarrow> node \<Rightarrow> string list \<Rightarrow> proc \<times> node"
  w_order :: "string list \<Rightarrow> string list"

type_synonym 'a io = "world \<Rightarrow> (exn + 'a) \<times> world"

definition retM :: "'a \<Rightarrow> 'a io" where
  "retM x = (\<lambda>w. (Inr x, w))"

definition raiseM :: "exn \<Rightarrow> 'a io" where
  "raiseM e = (\<lambda>w. (Inl e, w))"

definition bindM :: "'a io \<Rightarrow> ('a \<Rightarrow> 'b io) \<Rightarrow> 'b io" where
  "bindM m f = (\<lambda>w. case m w of (Inl e, w') \<Rightarrow> (Inl e, w') | (Inr x, w') \<Rightarrow> f x w')"

definition thenM :: "'a io \<Rightarrow> 'b io \<Rightarrow> 'b io" where
  "thenM m k = bindM m (\<lambda>_. k)"

text \<open>\<^verbatim>\<open>try: m except P as e: h(e)\<close>\<close>

definition catchM :: "'a io \<Rightarrow> (exn \<Rightarrow> bool) \<Rightarrow> (exn \<Rightarrow> 'a io) \<Rightarrow> 'a io" where
  "catchM m P h =
     (\<lambda>w. case m w of (Inl e, w') \<Rightarrow> (if P e then h e w' else (Inl e, w')) | r \<Rightarrow> r)"

text \<open>\<^verbatim>\<open>try: m finally: f\<close>\<close>

definition finallyM :: "'a io \<Rightarrow> unit io \<Rightarrow> 'a io" where
  "finallyM m f =
     (\<lambda>w. case m w of (r, w') \<Rightarrow> (case f w' of (Inl e, w'') \<Rightarrow> (Inl e, w'') | (Inr _, w'') \<Rightarrow> (r, w'')))"

definition whenM :: "bool \<Rightarrow> unit io \<Rightarrow> unit io" where
  "whenM b m = (if b then m else retM ())"

definition liftM :: "exn + 'a \<Rightarrow> 'a io" where
  "liftM r = (\<lambda>w. (r, w))"

definition getM :: "(world \<Rightarrow> 'a) \<Rightarrow> 'a io" where
  "getM f = (\<lambda>w. (Inr (f w), w))"

definition modifyM :: "(world \<Rightarrow> world) \<Rightarrow> unit io" where
  "modifyM f = (\<lambda>w. (Inr (), f w))"

text \<open>\<^verbatim>\<open>for x in xs: f(x)\<close>\<close>

fun forM :: "'a list \<Rightarrow> ('a \<Rightarrow> unit io) \<Rightarrow> unit io" where
  "forM [] f = retM ()"
| "forM (x # xs) f = bindM (f x) (\<lambda>_. forM xs f)"

fun foldM :: "('s \<Rightarrow> 'a \<Rightarrow> 's io) \<Rightarrow> 's \<Rightarrow> 'a list \<Rightarrow> 's io" where
  "foldM f s [] = retM s"
| "foldM f s (x # xs) = bindM (f s x) (\<lambda>s'. foldM f s' xs)"

fun mapM :: "('a \<Rightarrow> 'b io) \<Rightarrow> 'a list \<Rightarrow> 'b list io" where
  "mapM f [] = retM []"
| "mapM f (x # xs) = bindM (f x) (\<lambda>y. bindM (mapM f xs) (\<lambda>ys. retM (y # ys)))"

definition emit :: "event \<Rightarrow> unit io" where
  "emit ev = modifyM (\<lambda>w. w\<lparr>w_trace := w_trace w @ [ev]\<rparr>)"

abbreviation log_info :: "string \<Rightarrow> unit io" where
  "log_info s \<equiv> emit (Log INFO s)"

abbreviation log_warning :: "string \<Rightarrow> unit io" where
  "log_warning s \<equiv> emit (Log WARNING s)"

abbreviation log_error :: "string \<Rightarrow> unit io" where
  "log_error s \<equiv> emit (Log ERROR s)"

abbreviation print_out :: "string \<Rightarrow> unit io" where
  "print_out s \<equiv> emit (Print Stdout (s @ [nl]))"

abbreviation print_err :: "string \<Rightarrow> unit io" where
  "print_err s \<equiv> emit (Print Stderr (s @ [nl]))"

abbreviation sys_exit :: "int \<Rightarrow> 'a io" where
  "sys_exit n \<equiv> raiseM (SystemExit n)"

abbreviation no_such_file :: "string \<Rightarrow> exn" where
  "no_such_file name \<equiv> FileNotFoundError (''[Errno 2] No such file or directory: '' @ repr_str name)"

text \<open>\<^verbatim>\<open>str(e)\<close>, as it reaches the log; the texts of the library's own exceptions are shortened to
  the part that depends on the call.\<close>

fun exn_str :: "exn \<Rightarrow> string" where
  "exn_str (ValueError m) = m"
| "exn_str (JSONDecodeError m) = m"
| "exn_str UnicodeDecodeError = ''invalid UTF-8''"
| "exn_str CycleError = ''nodes are in a cycle''"
| "exn_str (KeyError k) = repr_str k"
| "exn_str IndexError = ''index out of range''"
| "exn_str (TypeError m) = m"
| "exn_str (AttributeError m) = m"
| "exn_str (OverflowError m) = m"
| "exn_str ZeroDivisionError = ''division by zero''"
| "exn_str RecursionError = ''maximum recursion depth exceeded''"
| "exn_str (OSError m) = m"
| "exn_str (FileNotFoundError m) = m"
| "exn_str (CalledProcessError cmd rc _ _) =
     ''Command ['' @ join '', '' (map repr_str cmd) @ ''] returned non-zero exit status '' @
     str_int rc @ ''.''"
| "exn_str (TemplateSyntaxError _ m) = m"
| "exn_str (UndefinedError m) = m"
| "exn_str KeyboardInterrupt = []"
| "exn_str (SystemExit n) = str_int n"

section \<open>Processes\<close>

definition run_proc :: "string list \<Rightarrow> (int \<times> string \<times> string) io" where
  "run_proc cmd =
     (\<lambda>w. let w1 = w\<lparr>w_trace := w_trace w @ [Exec cmd]\<rparr>;
              (r, fs') = w_exec w (w_trace w) (w_fs w) cmd
          in case r of
               Done rc out err \<Rightarrow> (Inr (rc, out, err), w1\<lparr>w_fs := fs'\<rparr>)
             | NoProgram \<Rightarrow> (Inl (no_such_file (hd cmd)), w1\<lparr>w_fs := fs'\<rparr>)
             | Interrupt \<Rightarrow> (Inl KeyboardInterrupt, w1\<lparr>w_fs := fs'\<rparr>))"

text \<open>\<^verbatim>\<open>subprocess.run(cmd, check=True, ...)\<close>\<close>

definition run_checked :: "bool \<Rightarrow> string list \<Rightarrow> (string \<times> string) io" where
  "run_checked capture cmd =
     bindM (run_proc cmd) (\<lambda>(rc, out, err).
       let out' = (if capture then out else []); err' = (if capture then err else [])
       in if rc = 0 then retM (out', err') else raiseM (CalledProcessError cmd rc out' err'))"

section \<open>Files\<close>

definition comps :: "world \<Rightarrow> path \<Rightarrow> string list" where
  "comps w p = (if is_absolute p then p_parts p else w_cwd w @ p_parts p)"

text \<open>\<^verbatim>\<open>Path.cwd()\<close>\<close>

definition cwd_path :: "world \<Rightarrow> path" where
  "cwd_path w = Path ''/'' (w_cwd w)"

definition path_exists :: "path \<Rightarrow> bool io" where
  "path_exists p = getM (\<lambda>w. exists_at (w_fs w) (comps w p))"

definition path_is_dir :: "path \<Rightarrow> bool io" where
  "path_is_dir p = getM (\<lambda>w. is_dir_at (w_fs w) (comps w p))"

fun fs_exn :: "fs_error \<Rightarrow> path \<Rightarrow> exn" where
  "fs_exn ENOENT p = no_such_file (str_path p)"
| "fs_exn ENOTDIR p = OSError (''Not a directory: '' @ str_path p)"
| "fs_exn ELOOP p = OSError (''Too many levels of symbolic links: '' @ str_path p)"

definition read_bytes :: "path \<Rightarrow> string io" where
  "read_bytes p =
     (\<lambda>w. case stat (w_fs w) (comps w p) of
            Inl e \<Rightarrow> (Inl (fs_exn e p), w)
          | Inr (File s _) \<Rightarrow> (Inr s, w)
          | Inr _ \<Rightarrow> (Inl (OSError (''Is a directory: '' @ str_path p)), w))"

text \<open>Text mode: UTF-8, and every line end becomes a line feed.\<close>

fun universal_newlines :: "string \<Rightarrow> string" where
  "universal_newlines [] = []"
| "universal_newlines [c] = (if c = CHR 0x0D then [nl] else [c])"
| "universal_newlines (c # d # s) =
     (if c = CHR 0x0D then nl # universal_newlines (if d = nl then s else d # s)
      else c # universal_newlines (d # s))"

definition decode_text :: "string \<Rightarrow> exn + string" where
  "decode_text s = (if utf8_valid s then Inr (universal_newlines s) else Inl UnicodeDecodeError)"

definition read_text :: "path \<Rightarrow> string io" where
  "read_text p = bindM (read_bytes p) (\<lambda>s. liftM (decode_text s))"

text \<open>\<^verbatim>\<open>with open(p) as f: json.load(f)\<close>\<close>

definition json_load :: "path \<Rightarrow> json io" where
  "json_load p = bindM (read_text p) (\<lambda>s. liftM (json_loads s))"

definition path_resolve :: "path \<Rightarrow> path io" where
  "path_resolve p =
     (\<lambda>w. case realpath (w_fs w) max_links [] (comps w p) of
            Inl e \<Rightarrow> (Inl (fs_exn e p), w)
          | Inr cs \<Rightarrow> (Inr (Path ''/'' cs), w))"

section \<open>Evaluation rules\<close>

lemma retM_run [io_simps, simp]: "retM x w = (Inr x, w)"
  by (simp add: retM_def)

lemma raiseM_run [io_simps, simp]: "raiseM e w = (Inl e, w)"
  by (simp add: raiseM_def)

lemma liftM_run [io_simps, simp]: "liftM r w = (r, w)"
  by (simp add: liftM_def)

lemma getM_run [io_simps, simp]: "getM f w = (Inr (f w), w)"
  by (simp add: getM_def)

lemma modifyM_run [io_simps, simp]: "modifyM f w = (Inr (), f w)"
  by (simp add: modifyM_def)

lemma bindM_run [io_simps]:
  "bindM m f w = (case m w of (Inl e, w') \<Rightarrow> (Inl e, w') | (Inr x, w') \<Rightarrow> f x w')"
  by (simp add: bindM_def)

lemma thenM_run [io_simps]:
  "thenM m k w = (case m w of (Inl e, w') \<Rightarrow> (Inl e, w') | (Inr x, w') \<Rightarrow> k w')"
  by (simp add: thenM_def bindM_def)

lemma emit_run [io_simps, simp]: "emit ev w = (Inr (), w\<lparr>w_trace := w_trace w @ [ev]\<rparr>)"
  by (simp add: emit_def)

lemma bindM_retM [simp]: "bindM (retM x) f = f x"
  by (simp add: bindM_def fun_eq_iff)

lemma bindM_raiseM [simp]: "bindM (raiseM e) f = raiseM e"
  by (simp add: bindM_def fun_eq_iff)

lemma bindM_retM_right [simp]: "bindM m retM = m"
  by (auto simp: bindM_def fun_eq_iff split: prod.splits sum.splits)

lemma bindM_assoc: "bindM (bindM m f) g = bindM m (\<lambda>x. bindM (f x) g)"
  by (auto simp: bindM_def fun_eq_iff split: prod.splits sum.splits)

lemma bindM_Inr:
  "bindM m f w = (Inr y, w2) \<longleftrightarrow> (\<exists>x w1. m w = (Inr x, w1) \<and> f x w1 = (Inr y, w2))"
  by (auto simp: bindM_def split: prod.splits sum.splits)

lemma bindM_Inl:
  "bindM m f w = (Inl e, w2) \<longleftrightarrow>
     m w = (Inl e, w2) \<or> (\<exists>x w1. m w = (Inr x, w1) \<and> f x w1 = (Inl e, w2))"
  by (auto simp: bindM_def split: prod.splits sum.splits)

lemma catchM_Inr:
  "catchM m P h w = (Inr x, w') \<longleftrightarrow>
     m w = (Inr x, w') \<or> (\<exists>e w1. m w = (Inl e, w1) \<and> P e \<and> h e w1 = (Inr x, w'))"
  by (auto simp: catchM_def split: prod.splits sum.splits)

lemma bindM_cong [fundef_cong]:
  assumes "m w = m' w'" "w = w'" "\<And>x w1. m' w' = (Inr x, w1) \<Longrightarrow> f x w1 = f' x w1"
  shows "bindM m f w = bindM m' f' w'"
  using assms by (auto simp: bindM_def split: prod.splits sum.splits)

section \<open>Weakest preconditions\<close>

definition wp :: "'a io \<Rightarrow> ('a \<Rightarrow> world \<Rightarrow> bool) \<Rightarrow> (exn \<Rightarrow> world \<Rightarrow> bool) \<Rightarrow> world \<Rightarrow> bool" where
  "wp m Q E w = (case m w of (Inr x, w') \<Rightarrow> Q x w' | (Inl e, w') \<Rightarrow> E e w')"

lemma wp_retM [wp]: "wp (retM x) Q E w = Q x w"
  and wp_raiseM [wp]: "wp (raiseM e) Q E w = E e w"
  and wp_getM [wp]: "wp (getM g) Q E w = Q (g w) w"
  by (simp_all add: wp_def)

lemma wp_modifyM [wp]: "wp (modifyM f) Q E w = Q () (f w)"
  and wp_emit [wp]: "wp (emit ev) Q E w = Q () (w\<lparr>w_trace := w_trace w @ [ev]\<rparr>)"
  by (simp_all add: wp_def)

lemma wp_liftM [wp]: "wp (liftM r) Q E w = (case r of Inl e \<Rightarrow> E e w | Inr x \<Rightarrow> Q x w)"
  by (simp add: wp_def split: sum.splits)

lemma wp_bindM [wp]: "wp (bindM m f) Q E w = wp m (\<lambda>x. wp (f x) Q E) E w"
  by (simp add: wp_def bindM_def split: prod.splits sum.splits)

lemma wp_thenM [wp]: "wp (thenM m k) Q E w = wp m (\<lambda>_. wp k Q E) E w"
  by (simp add: thenM_def wp_bindM)

lemma wp_catchM [wp]:
  "wp (catchM m P h) Q E w = wp m Q (\<lambda>e w'. if P e then wp (h e) Q E w' else E e w') w"
  by (simp add: wp_def catchM_def split: prod.splits sum.splits)

lemma wp_whenM [wp]: "wp (whenM b m) Q E w = (if b then wp m Q E w else Q () w)"
  by (simp add: whenM_def wp_retM)

lemma wp_if [wp]: "wp (if b then m else k) Q E w = (if b then wp m Q E w else wp k Q E w)"
  by simp

lemma wp_run_proc [wp]:
  "wp (run_proc cmd) Q E w =
     (case w_exec w (w_trace w) (w_fs w) cmd of
        (Done rc out err, fs') \<Rightarrow>
          Q (rc, out, err) (w\<lparr>w_trace := w_trace w @ [Exec cmd], w_fs := fs'\<rparr>)
      | (NoProgram, fs') \<Rightarrow>
          E (no_such_file (hd cmd)) (w\<lparr>w_trace := w_trace w @ [Exec cmd], w_fs := fs'\<rparr>)
      | (Interrupt, fs') \<Rightarrow>
          E KeyboardInterrupt (w\<lparr>w_trace := w_trace w @ [Exec cmd], w_fs := fs'\<rparr>))"
  by (simp add: wp_def run_proc_def Let_def split: prod.splits proc.splits)

lemma wp_case_prod [wp]: "wp (case p of (a, b) \<Rightarrow> f a b) Q E w = (case p of (a, b) \<Rightarrow> wp (f a b) Q E w)"
  by (cases p) simp

lemma wpI: "(\<And>r w'. m w = (r, w') \<Longrightarrow> (case r of Inr x \<Rightarrow> Q x w' | Inl e \<Rightarrow> E e w')) \<Longrightarrow> wp m Q E w"
  by (simp add: wp_def split: prod.splits sum.splits)

lemma wp_returns: "wp m Q E w \<Longrightarrow> m w = (Inr x, w') \<Longrightarrow> Q x w'"
  and wp_raises: "wp m Q E w \<Longrightarrow> m w = (Inl e, w') \<Longrightarrow> E e w'"
  by (simp_all add: wp_def)

lemma wp_mono:
  assumes "wp m Q E w" "\<And>x w'. Q x w' \<Longrightarrow> Q' x w'" "\<And>e w'. E e w' \<Longrightarrow> E' e w'"
  shows "wp m Q' E' w"
  using assms by (auto simp: wp_def split: prod.splits sum.splits)

lemma wp_forM:
  assumes "\<And>x w. x \<in> set xs \<Longrightarrow> I w \<Longrightarrow> wp (f x) (\<lambda>_. I) E w" "I w"
  shows "wp (forM xs f) (\<lambda>_. I) E w"
  using assms
proof (induction xs arbitrary: w)
  case (Cons x xs)
  have "wp (f x) (\<lambda>_. I) E w" using Cons.prems by simp
  then have "wp (f x) (\<lambda>_ w'. wp (forM xs f) (\<lambda>_. I) E w') E w"
    by (rule wp_mono) (use Cons in auto)
  then show ?case by (simp add: wp_bindM)
qed (simp add: wp_retM)

section \<open>Frames\<close>

text \<open>A relation between the world before and the world after that every action keeps is
  reflexive and transitive; it is then kept by every combination of actions that keep it.\<close>

locale frame =
  fixes R :: "world \<Rightarrow> world \<Rightarrow> bool"
  assumes refl: "R w w"
    and trans: "R w w' \<Longrightarrow> R w' w'' \<Longrightarrow> R w w''"
begin

definition keeps :: "'a io \<Rightarrow> bool" where
  "keeps m = (\<forall>w. R w (snd (m w)))"

lemma keepsD: "keeps m \<Longrightarrow> m w = (r, w') \<Longrightarrow> R w w'"
  unfolding keeps_def by (metis snd_conv)

lemma keepsI: "(\<And>w r w'. m w = (r, w') \<Longrightarrow> R w w') \<Longrightarrow> keeps m"
  unfolding keeps_def by (metis prod.collapse)

lemma keeps_retM: "keeps (retM x)"
  by (simp add: keeps_def refl)

lemma keeps_raiseM: "keeps (raiseM e)"
  by (simp add: keeps_def refl)

lemma keeps_getM: "keeps (getM f)"
  by (simp add: keeps_def refl)

lemma keeps_liftM: "keeps (liftM r)"
  by (simp add: keeps_def refl)

lemma keeps_bindM: "keeps m \<Longrightarrow> (\<And>x. keeps (f x)) \<Longrightarrow> keeps (bindM m f)"
  by (rule keepsI) (auto simp: bindM_run split: prod.splits sum.splits dest: keepsD intro: trans)

lemma keeps_thenM: "keeps m \<Longrightarrow> keeps k \<Longrightarrow> keeps (thenM m k)"
  unfolding thenM_def by (intro keeps_bindM)

lemma keeps_catchM: "keeps m \<Longrightarrow> (\<And>e. keeps (h e)) \<Longrightarrow> keeps (catchM m P h)"
  by (rule keepsI)
    (auto simp: catchM_def split: prod.splits sum.splits if_splits dest: keepsD intro: trans)

lemma keeps_whenM: "keeps m \<Longrightarrow> keeps (whenM b m)"
  by (simp add: whenM_def keeps_retM)

lemma keeps_if: "keeps m \<Longrightarrow> keeps k \<Longrightarrow> keeps (if b then m else k)"
  by simp

lemma keeps_case_prod: "(\<And>a b. keeps (f a b)) \<Longrightarrow> keeps (case p of (a, b) \<Rightarrow> f a b)"
  by (cases p) simp

lemma keeps_case_prod_app: "(\<And>a b. keeps (f a b x)) \<Longrightarrow> keeps ((case p of (a, b) \<Rightarrow> f a b) x)"
  by (cases p) simp

lemma keeps_case_option: "keeps m \<Longrightarrow> (\<And>x. keeps (f x)) \<Longrightarrow> keeps (case v of None \<Rightarrow> m | Some x \<Rightarrow> f x)"
  by (cases v) simp_all

lemma keeps_forM: "(\<And>x. x \<in> set xs \<Longrightarrow> keeps (f x)) \<Longrightarrow> keeps (forM xs f)"
  by (induction xs) (simp_all add: keeps_retM keeps_bindM)

lemma keeps_foldM: "(\<And>s x. x \<in> set xs \<Longrightarrow> keeps (f s x)) \<Longrightarrow> keeps (foldM f s xs)"
  by (induction xs arbitrary: s) (simp_all add: keeps_retM keeps_bindM)

lemma keeps_mapM: "(\<And>x. x \<in> set xs \<Longrightarrow> keeps (f x)) \<Longrightarrow> keeps (mapM f xs)"
  by (induction xs) (simp_all add: keeps_retM keeps_bindM)

lemma keeps_case_sum:
  "(\<And>e. keeps (f e)) \<Longrightarrow> (\<And>x. keeps (g x)) \<Longrightarrow> keeps (case v of Inl e \<Rightarrow> f e | Inr x \<Rightarrow> g x)"
  by (cases v) simp_all

text \<open>Actions that only look at the world.\<close>

lemma keeps_read_bytes: "keeps (read_bytes p)"
  by (auto simp: keeps_def read_bytes_def refl split: sum.splits node.splits)

lemma keeps_read_text: "keeps (read_text p)"
  unfolding read_text_def by (intro keeps_bindM keeps_read_bytes keeps_liftM)

lemma keeps_json_load: "keeps (json_load p)"
  unfolding json_load_def by (intro keeps_bindM keeps_read_text keeps_liftM)

lemma keeps_path_exists: "keeps (path_exists p)"
  unfolding path_exists_def by (rule keeps_getM)

lemma keeps_path_is_dir: "keeps (path_is_dir p)"
  unfolding path_is_dir_def by (rule keeps_getM)

lemma keeps_path_resolve: "keeps (path_resolve p)"
  by (auto simp: keeps_def path_resolve_def refl split: sum.splits)

lemmas keeps_intros =
  keeps_retM keeps_raiseM keeps_getM keeps_liftM keeps_bindM keeps_thenM keeps_catchM keeps_whenM
  keeps_if keeps_case_prod keeps_case_prod_app keeps_case_option keeps_case_sum keeps_forM keeps_foldM keeps_mapM
  keeps_read_bytes keeps_read_text keeps_json_load keeps_path_exists keeps_path_is_dir
  keeps_path_resolve

end

text \<open>The trace only grows.\<close>

definition trace_ext :: "world \<Rightarrow> world \<Rightarrow> bool" where
  "trace_ext w w' = prefix (w_trace w) (w_trace w')"

interpretation trace: frame trace_ext
  by unfold_locales (auto simp: trace_ext_def)

text \<open>The parameters, the working directory and the environment stay.\<close>

definition same_setting :: "world \<Rightarrow> world \<Rightarrow> bool" where
  "same_setting w w' =
     (w_cwd w' = w_cwd w \<and> w_env w' = w_env w \<and> w_exec w' = w_exec w \<and> w_order w' = w_order w)"

interpretation setting: frame same_setting
  by unfold_locales (auto simp: same_setting_def)

lemma trace_keeps_emit: "trace.keeps (emit ev)"
  by (simp add: trace.keeps_def trace_ext_def)

lemma setting_keeps_emit: "setting.keeps (emit ev)"
  by (simp add: setting.keeps_def same_setting_def)

lemma trace_keeps_run_proc: "trace.keeps (run_proc cmd)"
  by (auto simp: trace.keeps_def trace_ext_def run_proc_def Let_def split: prod.splits proc.splits)

lemma setting_keeps_run_proc: "setting.keeps (run_proc cmd)"
  by (auto simp: setting.keeps_def same_setting_def run_proc_def Let_def split: prod.splits proc.splits)

lemma trace_keeps_run_checked: "trace.keeps (run_checked c cmd)"
  unfolding run_checked_def Let_def
  by (intro trace.keeps_intros trace_keeps_run_proc)

lemma setting_keeps_run_checked: "setting.keeps (run_checked c cmd)"
  unfolding run_checked_def Let_def
  by (intro setting.keeps_intros setting_keeps_run_proc)

text \<open>Only commands of a given set are run.\<close>

fun execs :: "event list \<Rightarrow> string list list" where
  "execs [] = []"
| "execs (Exec cmd # evs) = cmd # execs evs"
| "execs (_ # evs) = execs evs"

lemma execs_append [simp]: "execs (evs @ evs') = execs evs @ execs evs'"
  by (induction evs rule: execs.induct) simp_all

definition runs_only :: "string list set \<Rightarrow> world \<Rightarrow> world \<Rightarrow> bool" where
  "runs_only C w w' = (\<exists>evs. w_trace w' = w_trace w @ evs \<and> set (execs evs) \<subseteq> C)"

interpretation cmds: frame "runs_only C" for C
proof
  show "runs_only C w w" for w by (auto simp: runs_only_def)
  show "runs_only C w w''" if "runs_only C w w'" "runs_only C w' w''" for w w' w''
    using that by (fastforce simp: runs_only_def)
qed

lemma cmds_keeps_log: "cmds.keeps C (emit (Log l s))"
  and cmds_keeps_print: "cmds.keeps C (emit (Print f s))"
  by (simp_all add: cmds.keeps_def runs_only_def)

lemma cmds_keeps_run_proc: "cmd \<in> C \<Longrightarrow> cmds.keeps C (run_proc cmd)"
  by (auto simp: cmds.keeps_def runs_only_def run_proc_def Let_def split: prod.splits proc.splits)

lemma cmds_keeps_run_checked: "cmd \<in> C \<Longrightarrow> cmds.keeps C (run_checked c cmd)"
  unfolding run_checked_def Let_def
  by (intro cmds.keeps_intros cmds_keeps_run_proc)

lemmas cmds_keeps =
  cmds.keeps_intros cmds_keeps_log cmds_keeps_print cmds_keeps_run_proc cmds_keeps_run_checked

lemmas trace_keeps =
  trace.keeps_intros trace_keeps_emit trace_keeps_run_proc trace_keeps_run_checked
lemmas setting_keeps =
  setting.keeps_intros setting_keeps_emit setting_keeps_run_proc setting_keeps_run_checked

section \<open>Which exceptions an action may raise\<close>

definition raises_in :: "exn set \<Rightarrow> 'a io \<Rightarrow> bool" where
  "raises_in S m = (\<forall>w e w'. m w = (Inl e, w') \<longrightarrow> e \<in> S)"

lemma raises_inD: "raises_in S m \<Longrightarrow> m w = (Inl e, w') \<Longrightarrow> e \<in> S"
  by (auto simp: raises_in_def)

lemma raises_in_mono: "raises_in S m \<Longrightarrow> S \<subseteq> T \<Longrightarrow> raises_in T m"
  by (auto simp: raises_in_def)

lemma raises_in_retM: "raises_in S (retM x)"
  and raises_in_getM: "raises_in S (getM g)"
  and raises_in_modifyM: "raises_in S (modifyM f)"
  and raises_in_emit: "raises_in S (emit ev)"
  by (simp_all add: raises_in_def)

lemma raises_in_raiseM: "e \<in> S \<Longrightarrow> raises_in S (raiseM e)"
  by (simp add: raises_in_def)

lemma raises_in_liftM: "(\<And>e. r = Inl e \<Longrightarrow> e \<in> S) \<Longrightarrow> raises_in S (liftM r)"
  by (simp add: raises_in_def)

lemma raises_in_bindM: "raises_in S m \<Longrightarrow> (\<And>x. raises_in S (f x)) \<Longrightarrow> raises_in S (bindM m f)"
  unfolding raises_in_def bindM_Inl by blast

lemma raises_in_bindM_dep:
  "raises_in S m \<Longrightarrow> (\<And>x w w'. m w = (Inr x, w') \<Longrightarrow> raises_in S (f x)) \<Longrightarrow> raises_in S (bindM m f)"
  unfolding raises_in_def bindM_Inl by blast

lemma raises_in_catchM:
  "raises_in T m \<Longrightarrow> (\<And>e. e \<in> T \<Longrightarrow> P e \<Longrightarrow> raises_in S (h e)) \<Longrightarrow> (\<And>e. e \<in> T \<Longrightarrow> \<not> P e \<Longrightarrow> e \<in> S) \<Longrightarrow>
   raises_in S (catchM m P h)"
  by (fastforce simp: raises_in_def catchM_def split: prod.splits sum.splits if_splits)

lemma raises_in_whenM: "raises_in S m \<Longrightarrow> raises_in S (whenM b m)"
  by (simp add: whenM_def raises_in_retM)

lemma raises_in_if: "raises_in S m \<Longrightarrow> raises_in S k \<Longrightarrow> raises_in S (if b then m else k)"
  by simp

lemma raises_in_case_prod: "(\<And>a b. raises_in S (f a b)) \<Longrightarrow> raises_in S (case p of (a, b) \<Rightarrow> f a b)"
  by (cases p) simp

lemma raises_in_case_prod_app:
  "(\<And>a b. raises_in S (f a b x)) \<Longrightarrow> raises_in S ((case p of (a, b) \<Rightarrow> f a b) x)"
  by (cases p) simp

lemma raises_in_case_option:
  "raises_in S m \<Longrightarrow> (\<And>x. raises_in S (f x)) \<Longrightarrow> raises_in S (case v of None \<Rightarrow> m | Some x \<Rightarrow> f x)"
  by (cases v) simp_all

lemma raises_in_forM: "(\<And>x. x \<in> set xs \<Longrightarrow> raises_in S (f x)) \<Longrightarrow> raises_in S (forM xs f)"
  by (induction xs) (simp_all add: raises_in_retM raises_in_bindM)

lemma raises_in_foldM: "(\<And>s x. x \<in> set xs \<Longrightarrow> raises_in S (f s x)) \<Longrightarrow> raises_in S (foldM f s xs)"
  by (induction xs arbitrary: s) (simp_all add: raises_in_retM raises_in_bindM)

lemma raises_in_mapM: "(\<And>x. x \<in> set xs \<Longrightarrow> raises_in S (f x)) \<Longrightarrow> raises_in S (mapM f xs)"
  by (induction xs) (simp_all add: raises_in_retM raises_in_bindM)

lemma raises_in_run_proc:
  "no_such_file (hd cmd) \<in> S \<Longrightarrow> KeyboardInterrupt \<in> S \<Longrightarrow> raises_in S (run_proc cmd)"
  by (auto simp: raises_in_def run_proc_def Let_def split: prod.splits proc.splits)

lemma raises_in_run_checked:
  "no_such_file (hd cmd) \<in> S \<Longrightarrow> KeyboardInterrupt \<in> S \<Longrightarrow>
   (\<And>rc out err. rc \<noteq> 0 \<Longrightarrow> CalledProcessError cmd rc out err \<in> S) \<Longrightarrow> raises_in S (run_checked c cmd)"
  unfolding run_checked_def Let_def
  by (intro raises_in_bindM raises_in_run_proc raises_in_case_prod) (auto simp: raises_in_def)

lemma raises_in_read_bytes: "{e. is_os_error e} \<subseteq> S \<Longrightarrow> raises_in S (read_bytes p)"
proof -
  have "is_os_error (fs_exn e p)" for e by (cases e) simp_all
  then show "{e. is_os_error e} \<subseteq> S \<Longrightarrow> raises_in S (read_bytes p)"
    by (auto simp: raises_in_def read_bytes_def split: sum.splits node.splits)
qed

lemma decode_text_error: "decode_text s = Inl e \<Longrightarrow> e = UnicodeDecodeError"
  by (simp add: decode_text_def split: if_splits)

lemmas raises_in_intros =
  raises_in_retM raises_in_getM raises_in_modifyM raises_in_emit raises_in_raiseM raises_in_bindM
  raises_in_whenM raises_in_if raises_in_case_prod raises_in_case_prod_app raises_in_case_option raises_in_forM
  raises_in_foldM raises_in_mapM

end
