(* ===== verification/DockerConfig.thy ===== *)
theory DockerConfig
  imports PyIO
begin

text \<open>
  The configuration side of \<^verbatim>\<open>src/.devkit/scripts/docker/build.py\<close> (lines 39 to 252): the
  schema of \<^verbatim>\<open>devkit.json\<close> and its validator, the registry settings and the image prefix, the
  checks for docker and the loader of the image configurations.
\<close>

section \<open>Start-up\<close>

definition cloudsdk_candidates :: "string list" where
  "cloudsdk_candidates = [''/usr/bin/python3'', ''/usr/bin/python'']"

fun set_first_existing :: "string \<Rightarrow> string list \<Rightarrow> unit io" where
  "set_first_existing var [] = retM ()"
| "set_first_existing var (c # cs) =
     bindM (path_exists (path_of c)) (\<lambda>ex.
       if ex then modifyM (\<lambda>w. w\<lparr>w_env := dict_set (w_env w) var c\<rparr>)
       else set_first_existing var cs)"

definition ensure_cloudsdk_python_is_set :: "unit io" where
  "ensure_cloudsdk_python_is_set =
     bindM (getM (\<lambda>w. ''CLOUDSDK_PYTHON'' \<in> set (dict_keys (w_env w)))) (\<lambda>present.
       if \<not> present then set_first_existing ''CLOUDSDK_PYTHON'' cloudsdk_candidates else retM ())"

section \<open>The configuration schema\<close>

datatype pytype = TDict | TStr | TList

datatype schema =
  Schema (s_type: "pytype option") (s_properties: "(string \<times> schema) list") (s_additional: additional)
and additional = Allowed | Forbidden | Each schema

definition str_schema :: schema where
  "str_schema = Schema (Some TStr) [] Allowed"

definition str_map_schema :: schema where
  "str_map_schema = Schema (Some TDict) [] (Each str_schema)"

definition image_schema :: schema where
  "image_schema = Schema (Some TDict)
     [(''packages'', str_map_schema), (''keys'', str_map_schema), (''repositories'', str_map_schema)]
     Forbidden"

definition registry_schema :: schema where
  "registry_schema = Schema (Some TDict)
     [(''host'', str_schema), (''project'', str_schema), (''repository'', str_schema),
      (''namespace'', str_schema)] Forbidden"

definition docker_schema :: schema where
  "docker_schema = Schema (Some TDict)
     [(''registry'', registry_schema),
      (''run'', Schema (Some TList) [] Allowed),
      (''images'', Schema (Some TDict) [] (Each image_schema))] Forbidden"

definition CONFIG_SCHEMA :: schema where
  "CONFIG_SCHEMA = Schema (Some TDict) [(''docker'', docker_schema)] Forbidden"

fun pytype_name :: "pytype \<Rightarrow> string" where
  "pytype_name TDict = ''dict''"
| "pytype_name TStr = ''str''"
| "pytype_name TList = ''list''"

fun isinstance :: "json \<Rightarrow> pytype \<Rightarrow> bool" where
  "isinstance (JObj _) TDict = True"
| "isinstance (JStr _) TStr = True"
| "isinstance (JList _) TList = True"
| "isinstance _ _ = False"

definition has_type :: "pytype option \<Rightarrow> json \<Rightarrow> bool" where
  "has_type ty v = (case ty of None \<Rightarrow> True | Some t \<Rightarrow> isinstance v t)"

definition sub_path :: "string \<Rightarrow> string \<Rightarrow> string" where
  "sub_path p k = (if p \<noteq> [] then p @ ''.'' @ k else k)"

definition type_error_at :: "string \<Rightarrow> pytype option \<Rightarrow> json \<Rightarrow> exn" where
  "type_error_at p ty v =
     ValueError (''Invalid type at '' @ quoted p @ ''. Expected '' @
       (case ty of None \<Rightarrow> [] | Some t \<Rightarrow> pytype_name t) @ '', got '' @ type_name v @ ''.'')"

definition extra_keys :: "json dict \<Rightarrow> schema dict \<Rightarrow> string list" where
  "extra_keys kvs props =
     sort (remdups (filter (\<lambda>k. k \<notin> set (dict_keys props)) (dict_keys kvs)))"

function (sequential) validate_config :: "json \<Rightarrow> schema \<Rightarrow> string \<Rightarrow> exn + unit"
and validate_properties :: "json dict \<Rightarrow> schema dict \<Rightarrow> string \<Rightarrow> exn + unit"
and validate_additional :: "json dict \<Rightarrow> string list \<Rightarrow> schema \<Rightarrow> string \<Rightarrow> exn + unit"
where
  "validate_config data (Schema ty props addl) p =
     (if \<not> has_type ty data then Inl (type_error_at p ty data)
      else (case data of
          JObj kvs \<Rightarrow>
            (if addl = Forbidden \<and> extra_keys kvs props \<noteq> []
             then Inl (ValueError (''Unexpected fields at '' @ quoted p @ '': '' @
                    join '', '' (extra_keys kvs props)))
             else bindE (validate_properties kvs props p) (\<lambda>_.
                    case addl of
                      Each s \<Rightarrow> validate_additional kvs (dict_keys props) s p
                    | _ \<Rightarrow> Inr ()))
        | _ \<Rightarrow> Inr ()))"
| "validate_properties kvs [] p = Inr ()"
| "validate_properties kvs ((k, s) # ps) p =
     bindE (case map_of kvs k of None \<Rightarrow> Inr () | Some v \<Rightarrow> validate_config v s (sub_path p k))
       (\<lambda>_. validate_properties kvs ps p)"
| "validate_additional [] names s p = Inr ()"
| "validate_additional ((k, v) # kvs) names s p =
     bindE (if k \<in> set names then Inr () else validate_config v s (sub_path p k))
       (\<lambda>_. validate_additional kvs names s p)"

  by pat_completeness auto
termination
  by (relation "measures
      [\<lambda>x. case x of Inl (d, s, p) \<Rightarrow> 2 * size s
                 | Inr (Inl (kvs, ps, p)) \<Rightarrow> 2 * size_list (size_prod (\<lambda>_. 0) size) ps
                 | Inr (Inr (kvs, ns, s, p)) \<Rightarrow> 2 * size s + 1,
       \<lambda>x. case x of Inr (Inr (kvs, ns, s, p)) \<Rightarrow> length kvs | _ \<Rightarrow> 0]") auto

section \<open>The registry settings\<close>

definition registry_repo :: "json \<Rightarrow> exn + string" where
  "registry_repo registry =
     bindE (json_in ''host'' registry) (\<lambda>h.
     if \<not> h then Inr [] else
     bindE (json_in ''project'' registry) (\<lambda>p.
     if \<not> p then Inr [] else
     bindE (json_in ''repository'' registry) (\<lambda>r.
     if \<not> r then Inr [] else
     bindE (json_get registry ''host'') (\<lambda>host.
     bindE (json_get registry ''project'') (\<lambda>project.
     bindE (json_get registry ''repository'') (\<lambda>repository.
       if truthy host \<and> truthy project \<and> truthy repository
       then Inr (json_str host @ ''/'' @ json_str project @ ''/'' @ json_str repository)
       else Inr []))))))"

definition registry_namespace :: "json \<Rightarrow> exn + string" where
  "registry_namespace registry =
     bindE (json_in ''namespace'' registry) (\<lambda>n.
     if \<not> n then Inr ''devkit'' else
     bindE (json_get registry ''namespace'') (\<lambda>ns.
       if truthy ns then Inr (''devkit/'' @ json_str ns) else Inr ''devkit''))"

definition parse_registry_config :: "json \<Rightarrow> exn + string \<times> string" where
  "parse_registry_config config =
     bindE (json_in ''docker'' config) (\<lambda>d.
     if \<not> d then Inr ([], ''devkit'') else
     bindE (json_get config ''docker'') (\<lambda>docker_config.
     bindE (json_in ''registry'' docker_config) (\<lambda>r.
     if \<not> r then Inr ([], ''devkit'') else
     bindE (json_get docker_config ''registry'') (\<lambda>registry.
     bindE (registry_repo registry) (\<lambda>repo.
     bindE (registry_namespace registry) (\<lambda>namespace.
       Inr (repo, namespace)))))))"

definition get_image_prefix :: "path \<Rightarrow> string io" where
  "get_image_prefix config_path =
     bindM (path_exists config_path) (\<lambda>ex.
     if ex then
       catchM
         (bindM (json_load config_path) (\<lambda>config.
          bindM (liftM (parse_registry_config config)) (\<lambda>(repo, namespace).
            if repo \<noteq> [] then retM (repo @ ''/'' @ namespace) else retM namespace)))
         (\<lambda>e. is_key_error e \<or> is_value_error e)
         (\<lambda>_. retM ''devkit'')
     else retM ''devkit'')"

section \<open>Checks for docker\<close>

definition check_tool :: "string list \<Rightarrow> string \<Rightarrow> string \<Rightarrow> path option \<Rightarrow> unit io" where
  "check_tool cmd ok_msg error_msg log_file =
     catchM (bindM (run_checked True cmd) (\<lambda>_. log_info ok_msg))
       (\<lambda>e. is_called_process_error e \<or> is_file_not_found e)
       (\<lambda>_. bindM (log_error error_msg) (\<lambda>_.
            bindM (whenM (log_file \<noteq> None) (print_err (''ERROR: '' @ error_msg))) (\<lambda>_.
              sys_exit 1)))"

definition check_docker_installed :: "path option \<Rightarrow> unit io" where
  "check_docker_installed log_file =
     check_tool [''docker'', ''--version''] ''Docker is installed.''
       ''Docker is not installed or not in PATH. Please install Docker.'' log_file"

definition check_docker_buildx_installed :: "path option \<Rightarrow> unit io" where
  "check_docker_buildx_installed log_file =
     check_tool [''docker'', ''buildx'', ''version''] ''Docker Buildx is installed.''
       ''Docker Buildx is not installed or not enabled. Please install/enable Docker Buildx.''
       log_file"

section \<open>The image configurations\<close>

text \<open>The entries of \<^verbatim>\<open>deps.json\<close> are kept as they are read; what the builder needs of an entry
  is looked up where it is used.\<close>

definition load_deps_file :: "json dict \<Rightarrow> path \<Rightarrow> json dict io" where
  "load_deps_file all_configs deps_file =
     bindM (path_exists deps_file) (\<lambda>ex.
     if \<not> ex then retM all_configs else
     bindM (log_info (''Loading image configs from '' @ str_path deps_file)) (\<lambda>_.
     bindM (read_text deps_file) (\<lambda>txt.
     case json_loads txt of
       Inl (JSONDecodeError m) \<Rightarrow>
         bindM (log_error (''Could not decode '' @ str_path deps_file @ '': '' @ m)) (\<lambda>_. sys_exit 1)
     | Inl e \<Rightarrow> raiseM e
     | Inr (JObj configs) \<Rightarrow> retM (dict_update all_configs configs)
     | Inr _ \<Rightarrow>
         bindM (log_warning (str_path deps_file @ '' does not contain a dict of configs.'')) (\<lambda>_.
           retM all_configs))))"

definition load_image_configs :: "path list \<Rightarrow> json dict io" where
  "load_image_configs search_paths =
     foldM (\<lambda>all_configs p. load_deps_file all_configs (child p ''deps.json'')) [] search_paths"

section \<open>What the validator accepts\<close>

text \<open>The schema read as a specification: a value conforms if it has the type, an object has no
  field beyond the listed ones where these are forbidden, and every field that has a schema
  conforms to it.\<close>

inductive conforms :: "json \<Rightarrow> schema \<Rightarrow> bool" where
  conformsI: "has_type (s_type sch) v \<Longrightarrow>
    (\<And>kvs k. v = JObj kvs \<Longrightarrow> s_additional sch = Forbidden \<Longrightarrow> k \<in> set (dict_keys kvs) \<Longrightarrow>
       k \<in> set (dict_keys (s_properties sch))) \<Longrightarrow>
    (\<And>kvs k s x. v = JObj kvs \<Longrightarrow> (k, s) \<in> set (s_properties sch) \<Longrightarrow> map_of kvs k = Some x \<Longrightarrow>
       conforms x s) \<Longrightarrow>
    (\<And>kvs k s x. v = JObj kvs \<Longrightarrow> s_additional sch = Each s \<Longrightarrow> (k, x) \<in> set kvs \<Longrightarrow>
       k \<notin> set (dict_keys (s_properties sch)) \<Longrightarrow> conforms x s) \<Longrightarrow>
    conforms v sch"

inductive_cases conformsE: "conforms v sch"

lemma extra_keys_empty:
  "extra_keys kvs props = [] \<longleftrightarrow> set (dict_keys kvs) \<subseteq> set (dict_keys props)"
proof -
  have "extra_keys kvs props = [] \<longleftrightarrow> set (extra_keys kvs props) = {}" by (metis set_empty)
  also have "\<dots> \<longleftrightarrow> set (dict_keys kvs) \<subseteq> set (dict_keys props)"
    by (auto simp: extra_keys_def)
  finally show ?thesis .
qed

lemma validate_properties_iff:
  "validate_properties kvs props p = Inr () \<longleftrightarrow>
     (\<forall>(k, s) \<in> set props. \<forall>x. map_of kvs k = Some x \<longrightarrow> validate_config x s (sub_path p k) = Inr ())"
  by (induction props) (auto simp: bindE_Inr split: option.splits)

lemma validate_additional_iff:
  "validate_additional kvs names s p = Inr () \<longleftrightarrow>
     (\<forall>(k, x) \<in> set kvs. k \<notin> set names \<longrightarrow> validate_config x s (sub_path p k) = Inr ())"
  by (induction kvs) (auto simp: bindE_Inr)

lemma validate_config_unfold:
  "validate_config v sch p = Inr () \<longleftrightarrow>
     has_type (s_type sch) v \<and>
     (\<forall>kvs. v = JObj kvs \<longrightarrow>
        (s_additional sch = Forbidden \<longrightarrow> set (dict_keys kvs) \<subseteq> set (dict_keys (s_properties sch))) \<and>
        (\<forall>(k, s) \<in> set (s_properties sch). \<forall>x. map_of kvs k = Some x \<longrightarrow>
           validate_config x s (sub_path p k) = Inr ()) \<and>
        (\<forall>s. s_additional sch = Each s \<longrightarrow>
           (\<forall>(k, x) \<in> set kvs. k \<notin> set (dict_keys (s_properties sch)) \<longrightarrow>
              validate_config x s (sub_path p k) = Inr ())))"
proof -
  obtain ty props addl where sch: "sch = Schema ty props addl" by (cases sch)
  show ?thesis
    unfolding sch
    by (cases v; cases addl)
      (simp_all add: bindE_Inr validate_properties_iff validate_additional_iff extra_keys_empty
        split: if_splits)
qed

lemma validate_conforms: "validate_config v sch p = Inr () \<Longrightarrow> conforms v sch"
proof (induction sch arbitrary: v p rule: measure_induct_rule [where f = size])
  case (less sch)
  have sub: "size s < size sch" if "(k, s) \<in> set (s_properties sch)" for k s
  proof -
    obtain ty props addl where sch: "sch = Schema ty props addl" by (cases sch)
    have "size_prod (\<lambda>_. 0) size (k, s) \<le> size_list (size_prod (\<lambda>_. 0) size) props"
      using that sch by (intro size_list_estimation') auto
    then show ?thesis by (simp add: sch)
  qed
  have add: "size s < size sch" if "s_additional sch = Each s" for s
    using that by (cases sch) simp
  note V = less.prems [unfolded validate_config_unfold [of v sch p]]
  show ?case
  proof (rule conformsI)
    show "has_type (s_type sch) v" using V by simp
  next
    fix kvs k
    assume "v = JObj kvs" "s_additional sch = Forbidden" "k \<in> set (dict_keys kvs)"
    then show "k \<in> set (dict_keys (s_properties sch))" using V by auto
  next
    fix kvs k s x
    assume a: "v = JObj kvs" "(k, s) \<in> set (s_properties sch)" "map_of kvs k = Some x"
    then have "validate_config x s (sub_path p k) = Inr ()" using V by fastforce
    then show "conforms x s" by (rule less.IH [OF sub [OF a(2)]])
  next
    fix kvs k s x
    assume a: "v = JObj kvs" "s_additional sch = Each s" "(k, x) \<in> set kvs"
      "k \<notin> set (dict_keys (s_properties sch))"
    then have "validate_config x s (sub_path p k) = Inr ()" using V by fastforce
    then show "conforms x s" by (rule less.IH [OF add [OF a(2)]])
  qed
qed

lemma conforms_validate: "conforms v sch \<Longrightarrow> validate_config v sch p = Inr ()"
proof (induction arbitrary: p rule: conforms.induct)
  case (conformsI sch v)
  then show ?case unfolding validate_config_unfold [of v sch p] by fastforce
qed

lemma validate_config_iff: "validate_config v sch p = Inr () \<longleftrightarrow> conforms v sch"
  using validate_conforms conforms_validate by blast

lemma validate_config_error: "validate_config v sch p = Inl e \<Longrightarrow> \<exists>m. e = ValueError m"
  and validate_properties_error: "validate_properties kvs props p = Inl e \<Longrightarrow> \<exists>m. e = ValueError m"
  and validate_additional_error: "validate_additional kvs names s p = Inl e \<Longrightarrow> \<exists>m. e = ValueError m"
proof (induction v sch p and kvs props p and kvs names s p
    rule: validate_config_validate_properties_validate_additional.induct)
  case (1 v ty props addl p)
  then show ?case
    by (cases v; cases addl) (auto simp: bindE_Inl type_error_at_def split: if_splits)
next
  case (3 kvs k s ps p)
  then show ?case by (auto simp: bindE_Inl split: option.splits)
next
  case (5 k v kvs names s p)
  then show ?case by (auto simp: bindE_Inl split: if_splits)
qed simp_all

text \<open>
  C1. The validator decides the schema: a value is accepted exactly if it conforms, whatever path
  is used for the messages, and a value that does not conform is rejected with a \<^verbatim>\<open>ValueError\<close>,
  never with another exception.
\<close>

theorem validate_config_decides:
  "if conforms v sch then validate_config v sch p = Inr ()
   else (\<exists>m. validate_config v sch p = Inl (ValueError m))"
proof (cases "validate_config v sch p")
  case (Inl e)
  then show ?thesis using validate_config_iff [of v sch p] validate_config_error [OF Inl] by auto
next
  case (Inr u)
  then show ?thesis using validate_config_iff [of v sch p] by simp
qed

end
