(* ===== verification/DockerImages.thy ===== *)
theory DockerImages
  imports PyIO
begin

text \<open>
  The docker operations of \<^verbatim>\<open>src/.devkit/scripts/docker/build.py\<close> (lines 554 to 761): looking an
  image up locally and in the registry, building, pulling and pushing it, and
  \<^verbatim>\<open>manage_docker_image\<close>, which decides between them.  Shown: the commands that each branch issues,
  that a local image is never pulled or pushed, and that the image is present when the function
  returns, for every docker that keeps the contract \<open>docker_keeps\<close>.
\<close>

definition print_err_part :: "string \<Rightarrow> unit io" where
  "print_err_part s = emit (Print Stderr s)"

definition inspect_cmd :: "string \<Rightarrow> string list" where
  "inspect_cmd tag = [''docker'', ''image'', ''inspect'', tag]"

definition check_if_image_exists_locally :: "string \<Rightarrow> bool io" where
  "check_if_image_exists_locally tag =
     bindM (log_info (''Checking for local image: '' @ tag)) (\<lambda>_.
     bindM (run_proc (inspect_cmd tag)) (\<lambda>(rc, _, _).
       if rc = 0 then
         bindM (log_info (''Image '' @ tag @ '' already exists locally.'')) (\<lambda>_. retM True)
       else bindM (log_info (''Image '' @ tag @ '' not found locally.'')) (\<lambda>_. retM False)))"

text \<open>The loop over the flat list of names and values; an odd length is an \<^verbatim>\<open>IndexError\<close>.\<close>

fun build_arg_flags :: "string list \<Rightarrow> exn + string list" where
  "build_arg_flags [] = Inr []"
| "build_arg_flags [name] = Inl IndexError"
| "build_arg_flags (name # val # rest) =
     bindE (build_arg_flags rest) (\<lambda>flags. Inr (''--build-arg'' # (name @ ''='' @ val) # flags))"

definition build_cmd ::
  "string \<Rightarrow> string \<Rightarrow> string list \<Rightarrow> string \<Rightarrow> bool \<Rightarrow> exn + string list" where
  "build_cmd tag dockerfile_path build_args_list context_path no_cache =
     bindE (build_arg_flags build_args_list) (\<lambda>flags.
       Inr ([''docker'', ''buildx'', ''build'', ''--tag'', tag, ''--file'', dockerfile_path] @
            (if no_cache then [''--no-cache''] else []) @ flags @ [context_path]))"

text \<open>What the scripts do with the captured output of a command.\<close>

definition log_output :: "string \<Rightarrow> string \<Rightarrow> unit io" where
  "log_output out err =
     bindM (whenM (out \<noteq> []) (log_info (strip out))) (\<lambda>_.
       whenM (err \<noteq> []) (log_warning (strip err)))"

definition build_image :: "string \<Rightarrow> string \<Rightarrow> string list \<Rightarrow> string \<Rightarrow> bool \<Rightarrow> unit io" where
  "build_image tag dockerfile_path build_args_list context_path no_cache =
     bindM (print_err_part (''Building image: '' @ tag @ ''...'')) (\<lambda>_.
     bindM (liftM (build_cmd tag dockerfile_path build_args_list context_path no_cache)) (\<lambda>cmd.
     bindM (log_info (''Executing build: '' @ join '' '' cmd)) (\<lambda>_.
     bindM (run_checked True cmd) (\<lambda>(out, err).
     bindM (print_err '' [OK]'') (\<lambda>_.
     bindM (log_output out err) (\<lambda>_.
       log_info (''Image '' @ tag @ '' built successfully.'')))))))"

definition manifest_cmd :: "string \<Rightarrow> string list" where
  "manifest_cmd tag = [''docker'', ''manifest'', ''inspect'', tag]"

definition check_if_image_exists_in_remote_registry :: "string \<Rightarrow> bool io" where
  "check_if_image_exists_in_remote_registry tag =
     bindM (log_info (''Checking for remote image manifest: '' @ tag)) (\<lambda>_.
     bindM (run_proc (manifest_cmd tag)) (\<lambda>(rc, _, _).
       if rc = 0 then
         bindM (log_info (''Image '' @ tag @ '' found in remote registry.'')) (\<lambda>_. retM True)
       else bindM (log_info (''Image '' @ tag @ '' not found in remote registry.'')) (\<lambda>_. retM False)))"

definition pull_cmd :: "string \<Rightarrow> string list" where
  "pull_cmd tag = [''docker'', ''pull'', tag]"

definition pull_image_from_registry :: "string \<Rightarrow> unit io" where
  "pull_image_from_registry tag =
     bindM (print_err_part (''Pulling image: '' @ tag @ ''...'')) (\<lambda>_.
     bindM (run_checked True (pull_cmd tag)) (\<lambda>(out, err).
     bindM (print_err '' [OK]'') (\<lambda>_.
     bindM (log_output out err) (\<lambda>_.
       log_info (''Image '' @ tag @ '' pulled successfully.'')))))"

definition push_cmd :: "string \<Rightarrow> string list" where
  "push_cmd tag = [''docker'', ''push'', tag]"

definition push_image_to_registry :: "string \<Rightarrow> unit io" where
  "push_image_to_registry tag =
     bindM (log_info (''Pushing image '' @ tag @ ''...'')) (\<lambda>_.
     bindM (print_err_part (''Pushing image: '' @ tag @ ''...'')) (\<lambda>_.
     bindM (run_proc (push_cmd tag)) (\<lambda>(rc, out, err).
       if rc = 0 then
         bindM (print_err '' [OK]'') (\<lambda>_.
         bindM (log_output out err) (\<lambda>_.
           log_info (''Image '' @ tag @ '' pushed successfully.'')))
       else
         bindM (print_err '' [FAILED]'') (\<lambda>_.
         bindM (log_warning (''Failed to push image '' @ tag @ ''. Continuing with local image.'')) (\<lambda>_.
           whenM (err \<noteq> []) (log_warning (''Details: '' @ strip err)))))))"

text \<open>The body of the \<^verbatim>\<open>try\<close>, split where the image is known to be missing, and the handler
  for a failed command.\<close>

definition provide_missing ::
  "string \<Rightarrow> string \<Rightarrow> string list \<Rightarrow> string \<Rightarrow> bool \<Rightarrow> bool \<Rightarrow> string \<Rightarrow> unit io" where
  "provide_missing tag dockerfile_path build_args_list context_path local_image_mode no_cache repo =
     (if repo = [] \<or> local_image_mode then
        bindM (whenM (repo = []) (log_warning ''Docker registry is not defined.'')) (\<lambda>_.
          build_image tag dockerfile_path build_args_list context_path no_cache)
      else
      bindM (if no_cache then retM False else check_if_image_exists_in_remote_registry tag) (\<lambda>remote.
      if remote then pull_image_from_registry tag
      else
        bindM (build_image tag dockerfile_path build_args_list context_path no_cache) (\<lambda>_.
          push_image_to_registry tag)))"

definition provide_image ::
  "string \<Rightarrow> string \<Rightarrow> string list \<Rightarrow> string \<Rightarrow> bool \<Rightarrow> bool \<Rightarrow> string \<Rightarrow> unit io" where
  "provide_image tag dockerfile_path build_args_list context_path local_image_mode no_cache repo =
     bindM (if no_cache then retM False else check_if_image_exists_locally tag) (\<lambda>found.
     if found then retM ()
     else provide_missing tag dockerfile_path build_args_list context_path local_image_mode no_cache repo)"

definition docker_failed :: "string \<Rightarrow> exn \<Rightarrow> unit io" where
  "docker_failed tag e =
     (case e of
        CalledProcessError cmd rc out err \<Rightarrow>
          bindM (print_err '' [FAILED]'') (\<lambda>_.
          bindM (log_error (''Error during Docker operation for '' @ tag @ '':'')) (\<lambda>_.
          bindM (log_error (''Command: '' @ join '' '' cmd)) (\<lambda>_.
          bindM (whenM (out \<noteq> []) (log_error (''Stdout: '' @ strip out))) (\<lambda>_.
          bindM (whenM (err \<noteq> []) (log_error (''Stderr: '' @ strip err))) (\<lambda>_.
            sys_exit (if rc \<noteq> 0 then rc else 1))))))
      | _ \<Rightarrow>
          bindM (log_error (''Docker command not found. '' @
                   ''Please ensure Docker is installed and in PATH.'')) (\<lambda>_. sys_exit 1))"

definition manage_docker_image ::
  "string \<Rightarrow> string \<Rightarrow> string list \<Rightarrow> string \<Rightarrow> bool \<Rightarrow> bool \<Rightarrow> string \<Rightarrow> unit io" where
  "manage_docker_image tag dockerfile_path build_args_list context_path local_image_mode no_cache repo =
     catchM
       (provide_image tag dockerfile_path build_args_list context_path local_image_mode no_cache repo)
       (\<lambda>e. is_called_process_error e \<or> is_file_not_found e)
       (docker_failed tag)"

section \<open>Commands\<close>

definition is_build_cmd :: "string \<Rightarrow> string list \<Rightarrow> bool" where
  "is_build_cmd tag cmd = prefix [''docker'', ''buildx'', ''build'', ''--tag'', tag] cmd"

lemma build_cmd_is_build: "build_cmd tag df args ctx nc = Inr cmd \<Longrightarrow> is_build_cmd tag cmd"
  by (auto simp: build_cmd_def bindE_Inr is_build_cmd_def)

lemma build_arg_flags_pairs:
  "build_arg_flags (concat (map (\<lambda>(a, v). [a, v]) ps)) =
     Inr (concat (map (\<lambda>(a, v). [''--build-arg'', a @ ''='' @ v]) ps))"
  by (induction ps) auto


lemma cmds_keeps_build_image:
  assumes "\<And>cmd. is_build_cmd tag cmd \<Longrightarrow> cmd \<in> C"
  shows "cmds.keeps C (build_image tag df args ctx nc)"
proof (cases "build_cmd tag df args ctx nc")
  case (Inl e)
  then show ?thesis
    unfolding build_image_def print_err_part_def
    by (auto simp: cmds.keeps_def bindM_run runs_only_def)
next
  case (Inr cmd)
  have lift: "liftM (Inr x) = retM x" for x :: 'b by (simp add: fun_eq_iff)
  show ?thesis
    unfolding build_image_def print_err_part_def log_output_def Inr lift bindM_retM
    by (intro cmds_keeps assms build_cmd_is_build [OF Inr])
qed

lemma cmds_keeps_exists_locally:
  "inspect_cmd tag \<in> C \<Longrightarrow> cmds.keeps C (check_if_image_exists_locally tag)"
  unfolding check_if_image_exists_locally_def by (intro cmds_keeps)

lemma cmds_keeps_exists_remotely:
  "manifest_cmd tag \<in> C \<Longrightarrow> cmds.keeps C (check_if_image_exists_in_remote_registry tag)"
  unfolding check_if_image_exists_in_remote_registry_def by (intro cmds_keeps)

lemma cmds_keeps_pull: "pull_cmd tag \<in> C \<Longrightarrow> cmds.keeps C (pull_image_from_registry tag)"
  unfolding pull_image_from_registry_def print_err_part_def log_output_def by (intro cmds_keeps)

lemma cmds_keeps_push: "push_cmd tag \<in> C \<Longrightarrow> cmds.keeps C (push_image_to_registry tag)"
  unfolding push_image_to_registry_def print_err_part_def log_output_def by (intro cmds_keeps)

lemma cmds_keeps_docker_failed: "cmds.keeps C (docker_failed tag e)"
  by (cases e) (simp_all only: docker_failed_def exn.case, (intro cmds_keeps)+)

lemmas docker_keeps_cmds =
  cmds_keeps_build_image cmds_keeps_exists_locally cmds_keeps_exists_remotely cmds_keeps_pull
  cmds_keeps_push cmds_keeps_docker_failed

text \<open>The commands a call may issue: those of the local store, and those that reach the registry.\<close>

definition local_cmds :: "string \<Rightarrow> string list set" where
  "local_cmds tag = insert (inspect_cmd tag) {cmd. is_build_cmd tag cmd}"

definition registry_cmds :: "string \<Rightarrow> string list set" where
  "registry_cmds tag = {manifest_cmd tag, pull_cmd tag, push_cmd tag}"

lemma manage_local_cmds:
  assumes "repo = [] \<or> local_mode"
  shows "cmds.keeps (local_cmds tag) (manage_docker_image tag df args ctx local_mode nc repo)"
proof -
  have "cmds.keeps (local_cmds tag) (provide_image tag df args ctx local_mode nc repo)"
    unfolding provide_image_def provide_missing_def if_P [OF assms]
    by (intro cmds_keeps docker_keeps_cmds) (simp_all add: local_cmds_def)
  then show ?thesis
    unfolding manage_docker_image_def by (intro cmds.keeps_catchM cmds_keeps_docker_failed)
qed

lemma manage_cmds:
  "cmds.keeps (local_cmds tag \<union> registry_cmds tag)
     (manage_docker_image tag df args ctx local_mode nc repo)"
  unfolding manage_docker_image_def provide_image_def provide_missing_def
  by (intro cmds_keeps docker_keeps_cmds) (simp_all add: local_cmds_def registry_cmds_def)

section \<open>Docker's side\<close>

text \<open>
  What the function relies on, for a predicate \<open>present\<close> that tells from the commands run so far
  and the file system whether a tag is in docker's local store: an inspection, a build or a pull
  that exits with 0 leaves the tag there, and a push does not remove it.
\<close>

definition docker_keeps ::
  "(event list \<Rightarrow> node \<Rightarrow> string list \<Rightarrow> proc \<times> node) \<Rightarrow>
   (string list list \<Rightarrow> node \<Rightarrow> string \<Rightarrow> bool) \<Rightarrow> bool" where
  "docker_keeps ex present =
     ((\<forall>tr fs tag cmd out err fs'.
         cmd = inspect_cmd tag \<or> cmd = pull_cmd tag \<or> is_build_cmd tag cmd \<longrightarrow>
         ex tr fs cmd = (Done 0 out err, fs') \<longrightarrow> present (execs tr @ [cmd]) fs' tag) \<and>
      (\<forall>tr fs tag r fs'.
         present (execs tr) fs tag \<longrightarrow> ex tr fs (push_cmd tag) = (r, fs') \<longrightarrow>
         present (execs tr @ [push_cmd tag]) fs' tag))"

lemma docker_keeps_success:
  "docker_keeps ex present \<Longrightarrow> ex tr fs cmd = (Done 0 out err, fs') \<Longrightarrow>
   cmd = inspect_cmd tag \<or> cmd = pull_cmd tag \<or> is_build_cmd tag cmd \<Longrightarrow>
   present (execs tr @ [cmd]) fs' tag"
  unfolding docker_keeps_def by blast

lemma docker_keeps_push:
  "docker_keeps ex present \<Longrightarrow> present (execs tr) fs tag \<Longrightarrow> ex tr fs (push_cmd tag) = (r, fs') \<Longrightarrow>
   present (execs tr @ [push_cmd tag]) fs' tag"
  unfolding docker_keeps_def by blast

definition has_tag :: "(string list list \<Rightarrow> node \<Rightarrow> string \<Rightarrow> bool) \<Rightarrow> string \<Rightarrow> world \<Rightarrow> bool" where
  "has_tag present tag w = present (execs (w_trace w)) (w_fs w) tag"

lemma wp_run_checked [wp]:
  "wp (run_checked True cmd) Q E w =
     wp (run_proc cmd) (\<lambda>(rc, out, err) w'. if rc = 0 then Q (out, err) w'
                          else E (CalledProcessError cmd rc out err) w') E w"
  by (simp add: wp_def run_checked_def bindM_run split: prod.splits sum.splits)

lemma wp_log_output [wp]:
  "wp (log_output out err) Q E w =
     Q () (w\<lparr>w_trace := w_trace w @ (if out \<noteq> [] then [Log INFO (strip out)] else []) @
                (if err \<noteq> [] then [Log WARNING (strip err)] else [])\<rparr>)"
  by (simp add: log_output_def wp_def bindM_run whenM_def)

abbreviation provided ::
  "(event list \<Rightarrow> node \<Rightarrow> string list \<Rightarrow> proc \<times> node) \<Rightarrow>
   (string list list \<Rightarrow> node \<Rightarrow> string \<Rightarrow> bool) \<Rightarrow> string \<Rightarrow> world \<Rightarrow> bool" where
  "provided ex present tag w \<equiv> w_exec w = ex \<and> has_tag present tag w"

lemma build_image_provides:
  assumes "docker_keeps ex present" "w_exec w = ex"
  shows "wp (build_image tag df args ctx nc) (\<lambda>_. provided ex present tag) (\<lambda>_ _. True) w"
proof (cases "build_cmd tag df args ctx nc")
  case (Inr cmd)
  have ok: "present (execs tr @ [cmd]) fs' tag" if "ex tr fs cmd = (Done 0 out err, fs')" for tr fs out err fs'
    using docker_keeps_success [OF assms(1) that] build_cmd_is_build [OF Inr] by blast
  show ?thesis
    by (auto simp: build_image_def print_err_part_def wp Inr has_tag_def assms(2) dest!: ok
        split: prod.splits proc.splits)
qed (simp add: build_image_def print_err_part_def wp)

lemma pull_image_provides:
  assumes "docker_keeps ex present" "w_exec w = ex"
  shows "wp (pull_image_from_registry tag) (\<lambda>_. provided ex present tag) (\<lambda>_ _. True) w"
  by (auto simp: pull_image_from_registry_def print_err_part_def wp has_tag_def assms(2)
      dest!: docker_keeps_success [OF assms(1), where cmd = "pull_cmd tag" and tag = tag]
      split: prod.splits proc.splits)

lemma push_image_provides:
  assumes "docker_keeps ex present" "provided ex present tag w"
  shows "wp (push_image_to_registry tag) (\<lambda>_. provided ex present tag) (\<lambda>_ _. True) w"
proof -
  have ex: "w_exec w = ex" and pre: "present (execs (w_trace w)) (w_fs w) tag"
    using assms(2) by (simp_all add: has_tag_def)
  have ok: "present (execs (w_trace w) @ [push_cmd tag]) fs' tag"
    if "ex tr (w_fs w) (push_cmd tag) = (r, fs')" "execs tr = execs (w_trace w)" for tr r fs'
    using docker_keeps_push [OF assms(1), of tr "w_fs w" tag] that pre by simp
  show ?thesis
    by (auto simp: push_image_to_registry_def print_err_part_def wp has_tag_def ex dest!: ok
        split: prod.splits proc.splits)
qed

lemma exists_locally_provides:
  assumes "docker_keeps ex present" "w_exec w = ex"
  shows "wp (check_if_image_exists_locally tag)
           (\<lambda>found w'. w_exec w' = ex \<and> (found \<longrightarrow> has_tag present tag w')) (\<lambda>_ _. True) w"
  by (auto simp: check_if_image_exists_locally_def wp has_tag_def assms(2)
      dest!: docker_keeps_success [OF assms(1), where cmd = "inspect_cmd tag" and tag = tag]
      split: prod.splits proc.splits)

lemma exists_remotely_exec:
  "wp (check_if_image_exists_in_remote_registry tag) (\<lambda>_ w'. w_exec w' = w_exec w) (\<lambda>_ _. True) w"
  by (auto simp: check_if_image_exists_in_remote_registry_def wp split: prod.splits proc.splits)

lemma provide_image_provides:
  assumes "docker_keeps ex present" "w_exec w = ex"
  shows "wp (provide_image tag df args ctx local_mode nc repo) (\<lambda>_. provided ex present tag)
           (\<lambda>_ _. True) w"
proof -
  note build = build_image_provides [OF assms(1)]
  have push: "wp (build_image tag df args ctx nc) (\<lambda>_. wp (push_image_to_registry tag)
      (\<lambda>_. provided ex present tag) (\<lambda>_ _. True)) (\<lambda>_ _. True) w1" if "w_exec w1 = ex" for w1 nc
    by (rule wp_mono [OF build [OF that]]) (use push_image_provides [OF assms(1)] in auto)
  have remote: "wp (check_if_image_exists_in_remote_registry tag)
      (\<lambda>r. wp (if r then pull_image_from_registry tag
               else bindM (build_image tag df args ctx nc) (\<lambda>_. push_image_to_registry tag))
             (\<lambda>_. provided ex present tag) (\<lambda>_ _. True)) (\<lambda>_ _. True) w1" if "w_exec w1 = ex" for w1 nc
    by (rule wp_mono [OF exists_remotely_exec])
      (use that push pull_image_provides [OF assms(1)] in \<open>auto simp: wp_bindM\<close>)
  have rest: "wp (if found then retM () else provide_missing tag df args ctx local_mode nc repo)
      (\<lambda>_. provided ex present tag) (\<lambda>_ _. True) w1"
    if "w_exec w1 = ex" "found \<longrightarrow> has_tag present tag w1" for found w1
    using that build push remote
    by (simp add: provide_missing_def wp_bindM wp_whenM wp_emit wp_retM)
  show ?thesis
  proof (cases nc)
    case True
    then show ?thesis
      using rest [of w False] assms(2) by (simp add: provide_image_def wp_bindM wp_retM)
  next
    case False
    show ?thesis
      unfolding provide_image_def wp_bindM if_not_P [OF False]
      by (rule wp_mono [OF exists_locally_provides [OF assms]]) (use rest in auto)
  qed
qed

lemma docker_failed_raises: "wp (docker_failed tag e) Q (\<lambda>e' _. \<exists>n. e' = SystemExit n \<and> n \<noteq> 0) w"
  by (cases e) (auto simp: docker_failed_def wp)

lemma manage_returns:
  assumes "manage_docker_image tag df args ctx local_mode nc repo w = (Inr (), w')"
  shows "provide_image tag df args ctx local_mode nc repo w = (Inr (), w')"
proof (cases "provide_image tag df args ctx local_mode nc repo w")
  case (Pair r w1)
  have "docker_failed tag e w1 \<noteq> (Inr (), w2)" for e w2
    using wp_returns [OF docker_failed_raises [of tag e "\<lambda>_ _. False" w1]] by blast
  then show ?thesis
    using assms Pair by (cases r) (auto simp: manage_docker_image_def catchM_def split: if_splits)
qed

text \<open>An instance of the contract: a store filled by builds and pulls, where only some tags can be
  pulled and every push is refused.\<close>

definition stored :: "string list list \<Rightarrow> node \<Rightarrow> string \<Rightarrow> bool" where
  "stored cmds fs tag = (\<exists>cmd \<in> set cmds. cmd = pull_cmd tag \<or> is_build_cmd tag cmd)"

definition sample_docker :: "event list \<Rightarrow> node \<Rightarrow> string list \<Rightarrow> proc \<times> node" where
  "sample_docker tr fs cmd =
     (case cmd of
        [_, verb, sub, tag] \<Rightarrow> (Done (if sub = ''inspect'' \<and> verb = ''image'' \<and> stored (execs tr) fs tag
                                     then 0 else 1) [] ''no such image'', fs)
      | [_, verb, tag] \<Rightarrow> (Done (if verb = ''pull'' then 0 else 1) [] ''denied'', fs)
      | _ \<Rightarrow> (Done 0 ''done'' [], fs))"

definition sample_world :: world where
  "sample_world =
     \<lparr>w_fs = Dir [], w_cwd = [], w_env = [], w_trace = [], w_exec = sample_docker, w_order = (\<lambda>xs. xs)\<rparr>"

lemma sample_docker_keeps: "docker_keeps sample_docker stored"
  unfolding docker_keeps_def
  by (auto simp: sample_docker_def stored_def inspect_cmd_def pull_cmd_def push_cmd_def is_build_cmd_def
      prefix_def split: list.splits if_splits)

text \<open>
  C2. When \<^verbatim>\<open>manage_docker_image\<close> returns, the image is in docker's local store: it was found
  there, or it has been pulled, or it has been built, and a refused push afterwards does not
  change that.
\<close>

theorem manage_docker_image_provides:
  assumes "docker_keeps (w_exec w) present"
    and "manage_docker_image tag df args ctx local_mode nc repo w = (Inr (), w')"
  shows "present (execs (w_trace w')) (w_fs w') tag"
  using wp_returns [OF provide_image_provides [OF assms(1) refl] manage_returns [OF assms(2)]]
  by (simp add: has_tag_def)

theorem manage_docker_image_provides_witness:
  "\<exists>w'. manage_docker_image ''devkit/a:t'' ''/a.Dockerfile'' [''BASE'', ''x''] ''/'' False False ''reg''
           sample_world = (Inr (), w') \<and>
        stored (execs (w_trace w')) (w_fs w') ''devkit/a:t''"
proof -
  let ?m = "manage_docker_image ''devkit/a:t'' ''/a.Dockerfile'' [''BASE'', ''x''] ''/'' False False ''reg''
              sample_world"
  have "fst ?m = Inr ()"
    by (simp add: manage_docker_image_def provide_image_def provide_missing_def catchM_def bindM_run
        check_if_image_exists_locally_def check_if_image_exists_in_remote_registry_def build_image_def
        build_cmd_def print_err_part_def run_checked_def push_image_to_registry_def log_output_def
        run_proc_def sample_world_def sample_docker_def stored_def inspect_cmd_def manifest_cmd_def
        push_cmd_def whenM_def Let_def)
  then obtain w' where run: "?m = (Inr (), w')" by (cases ?m) auto
  show ?thesis
    using run manage_docker_image_provides [OF _ run, of stored] sample_docker_keeps
    by (auto simp: sample_world_def)
qed

text \<open>
  C3. Without a registry, or for an image that is local, the only commands run are the inspection
  and the build of this tag: nothing is looked up in, pulled from or pushed to the registry.  In
  the other case only those three registry commands for this tag are added.
\<close>

theorem manage_docker_image_commands:
  "\<exists>evs. w_trace (snd (manage_docker_image tag df args ctx local_mode nc repo w)) = w_trace w @ evs \<and>
     set (execs evs) \<subseteq> (if repo = [] \<or> local_mode then local_cmds tag
                         else local_cmds tag \<union> registry_cmds tag)"
  using manage_local_cmds [of repo local_mode tag df args ctx nc] manage_cmds [of tag df args ctx local_mode nc repo]
  by (auto simp: cmds.keeps_def runs_only_def)

text \<open>The exceptions of the single operations; \<open>docker_errors\<close> are those the handler expects.\<close>

definition docker_errors :: "exn set" where
  "docker_errors = {e. is_called_process_error e \<or> is_file_not_found e \<or> e = KeyboardInterrupt}"

lemma docker_errors_simps [simp]:
  "FileNotFoundError p \<in> docker_errors" "CalledProcessError cmd rc out err \<in> docker_errors"
  "KeyboardInterrupt \<in> docker_errors"
  by (simp_all add: docker_errors_def)







text \<open>
  The decision table: the commands of a call, from the exit codes that docker gives.
\<close>

definition missing_plan ::
  "(string list \<Rightarrow> int) \<Rightarrow> string \<Rightarrow> string list \<Rightarrow> bool \<Rightarrow> bool \<Rightarrow> string list list" where
  "missing_plan rc tag cmd local_only no_cache =
     (let build = cmd # (if rc cmd \<noteq> 0 then [] else [push_cmd tag])
      in if local_only then [cmd]
         else if no_cache then build
         else manifest_cmd tag # (if rc (manifest_cmd tag) = 0 then [pull_cmd tag] else build))"

definition manage_plan ::
  "(string list \<Rightarrow> int) \<Rightarrow> string \<Rightarrow> string list \<Rightarrow> bool \<Rightarrow> bool \<Rightarrow> string list list" where
  "manage_plan rc tag cmd local_only no_cache =
     (if no_cache then missing_plan rc tag cmd local_only no_cache
      else inspect_cmd tag #
        (if rc (inspect_cmd tag) = 0 then [] else missing_plan rc tag cmd local_only no_cache))"

text \<open>A docker whose answers depend on the command alone.\<close>

definition answers ::
  "(string list \<Rightarrow> int) \<Rightarrow> (string list \<Rightarrow> string) \<Rightarrow> (string list \<Rightarrow> string) \<Rightarrow> world \<Rightarrow> bool" where
  "answers rc out err w =
     (\<forall>tr fs cmd. w_exec w tr fs cmd = (Done (rc cmd) (out cmd) (err cmd), fs))"

definition ran ::
  "(string list \<Rightarrow> int) \<Rightarrow> (string list \<Rightarrow> string) \<Rightarrow> (string list \<Rightarrow> string) \<Rightarrow>
   string list list \<Rightarrow> world \<Rightarrow> world \<Rightarrow> bool" where
  "ran rc out err cmds w w' =
     (answers rc out err w' \<and> execs (w_trace w') = execs (w_trace w) @ cmds)"

lemma ran_trans: "ran rc out err c1 w w1 \<Longrightarrow> ran rc out err c2 w1 w2 \<Longrightarrow> ran rc out err (c1 @ c2) w w2"
  by (simp add: ran_def)

lemma ran_answers: "ran rc out err c w w' \<Longrightarrow> answers rc out err w'"
  by (simp add: ran_def)

lemmas run_defs = bindM_run print_err_part_def run_checked_def log_output_def run_proc_def whenM_def
  Let_def answers_def ran_def

lemma lookups_ran:
  assumes "answers rc out err w"
  shows "\<exists>w'. check_if_image_exists_locally tag w = (Inr (rc (inspect_cmd tag) = 0), w') \<and>
           ran rc out err [inspect_cmd tag] w w'"
    and "\<exists>w'. check_if_image_exists_in_remote_registry tag w = (Inr (rc (manifest_cmd tag) = 0), w') \<and>
           ran rc out err [manifest_cmd tag] w w'"
  using assms
  by (simp_all add: check_if_image_exists_locally_def check_if_image_exists_in_remote_registry_def run_defs)

lemma build_image_ran:
  assumes "answers rc out err w" "build_cmd tag df args ctx nc = Inr cmd"
  shows "\<exists>w'. build_image tag df args ctx nc w =
           (if rc cmd = 0 then Inr () else Inl (CalledProcessError cmd (rc cmd) (out cmd) (err cmd)), w') \<and>
           ran rc out err [cmd] w w'"
  using assms by (simp add: build_image_def run_defs)

lemma transfers_ran:
  assumes "answers rc out err w"
  shows "\<exists>r w'. pull_image_from_registry tag w = (r, w') \<and>
           (\<forall>e. r = Inl e \<longrightarrow> is_called_process_error e) \<and> ran rc out err [pull_cmd tag] w w'"
    and "\<exists>w'. push_image_to_registry tag w = (Inr (), w') \<and> ran rc out err [push_cmd tag] w w'"
  using assms
  by (simp_all add: pull_image_from_registry_def push_image_to_registry_def run_defs)

lemma docker_failed_ran:
  assumes "answers rc out err w" "is_called_process_error e"
  shows "ran rc out err [] w (snd (docker_failed tag e w))"
  using assms by (cases e) (simp_all add: docker_failed_def run_defs)

lemma build_push_ran:
  assumes "answers rc out err w" "build_cmd tag df args ctx nc = Inr cmd"
  shows "\<exists>r w'. bindM (build_image tag df args ctx nc) (\<lambda>_. push_image_to_registry tag) w = (r, w') \<and>
           (\<forall>e. r = Inl e \<longrightarrow> is_called_process_error e) \<and>
           ran rc out err (cmd # (if rc cmd \<noteq> 0 then [] else [push_cmd tag])) w w'"
proof -
  obtain w1 where b: "build_image tag df args ctx nc w =
      (if rc cmd = 0 then Inr () else Inl (CalledProcessError cmd (rc cmd) (out cmd) (err cmd)), w1)"
    "ran rc out err [cmd] w w1" using build_image_ran [OF assms] by blast
  obtain w2 where p: "push_image_to_registry tag w1 = (Inr (), w2)" "ran rc out err [push_cmd tag] w1 w2"
    using transfers_ran(2) [OF ran_answers [OF b(2)]] by blast
  show ?thesis
    using b p ran_trans [OF b(2) p(2)] by (cases "rc cmd = 0") (simp_all add: bindM_run)
qed

lemma provide_missing_ran:
  assumes "answers rc out err w" "build_cmd tag df args ctx nc = Inr cmd"
  shows "\<exists>r w'. provide_missing tag df args ctx local_mode nc repo w = (r, w') \<and>
           (\<forall>e. r = Inl e \<longrightarrow> is_called_process_error e) \<and>
           ran rc out err (missing_plan rc tag cmd (repo = [] \<or> local_mode) nc) w w'"
proof (cases "repo = [] \<or> local_mode")
  case True
  define w0 where "w0 = snd (whenM (repo = []) (log_warning ''Docker registry is not defined.'') w)"
  have w0: "whenM (repo = []) (log_warning ''Docker registry is not defined.'') w = (Inr (), w0)"
    "answers rc out err w0" "execs (w_trace w0) = execs (w_trace w)"
    using assms(1) by (simp_all add: w0_def whenM_def answers_def)
  show ?thesis
    using build_image_ran [OF w0(2) assms(2)] True w0
    by (auto simp: provide_missing_def bindM_run missing_plan_def ran_def)
next
  case False
  show ?thesis
  proof (cases nc)
    case True
    then show ?thesis
      using build_push_ran [OF assms] False by (simp add: provide_missing_def missing_plan_def)
  next
    case cached: False
    obtain w1 where look: "check_if_image_exists_in_remote_registry tag w = (Inr (rc (manifest_cmd tag) = 0), w1)"
      "ran rc out err [manifest_cmd tag] w w1" using lookups_ran(2) [OF assms(1)] by blast
    note ok = ran_answers [OF look(2)]
    show ?thesis
      using transfers_ran(1) [OF ok, of tag] build_push_ran [OF ok assms(2)] False cached look
        ran_trans [OF look(2)]
      by (auto simp: provide_missing_def bindM_run [of "check_if_image_exists_in_remote_registry tag"]
          missing_plan_def)
  qed
qed

lemma provide_image_ran:
  assumes "answers rc out err w" "build_cmd tag df args ctx nc = Inr cmd"
  shows "\<exists>r w'. provide_image tag df args ctx local_mode nc repo w = (r, w') \<and>
           (\<forall>e. r = Inl e \<longrightarrow> is_called_process_error e) \<and>
           ran rc out err (manage_plan rc tag cmd (repo = [] \<or> local_mode) nc) w w'"
proof (cases nc)
  case True
  then show ?thesis
    using provide_missing_ran [OF assms, of local_mode repo] by (simp add: provide_image_def manage_plan_def)
next
  case False
  obtain w1 where look: "check_if_image_exists_locally tag w = (Inr (rc (inspect_cmd tag) = 0), w1)"
    "ran rc out err [inspect_cmd tag] w w1" using lookups_ran(1) [OF assms(1)] by blast
  show ?thesis
    using provide_missing_ran [OF ran_answers [OF look(2)] assms(2), of local_mode repo] False look
      ran_trans [OF look(2)]
    by (auto simp: provide_image_def bindM_run [of "check_if_image_exists_locally tag"] manage_plan_def)
qed

text \<open>
  C5. The commands of a call are exactly those of the decision table: look the image up locally
  unless the cache is off, then build it (no registry) or look it up in the registry and pull it,
  or build it and push it if the build succeeded.
\<close>

theorem manage_docker_image_plan:
  assumes "answers rc out err w" "build_cmd tag df args ctx nc = Inr cmd"
  shows "execs (w_trace (snd (manage_docker_image tag df args ctx local_mode nc repo w))) =
           execs (w_trace w) @ manage_plan rc tag cmd (repo = [] \<or> local_mode) nc"
proof -
  obtain r w1 where p: "provide_image tag df args ctx local_mode nc repo w = (r, w1)"
    "\<forall>e. r = Inl e \<longrightarrow> is_called_process_error e"
    "ran rc out err (manage_plan rc tag cmd (repo = [] \<or> local_mode) nc) w w1"
    using provide_image_ran [OF assms] by blast
  then show ?thesis
    using docker_failed_ran [OF ran_answers [OF p(3)]]
    by (cases r) (auto simp: manage_docker_image_def catchM_def ran_def)
qed

theorem manage_docker_image_plan_witness:
  "execs (w_trace (snd (manage_docker_image ''t'' ''/d'' [''A'', ''1''] ''/'' False False ''r''
       (sample_world\<lparr>w_exec := (\<lambda>tr fs cmd. (Done (if cmd = inspect_cmd ''t'' then 1 else 0) [] [], fs))\<rparr>)))) =
     [inspect_cmd ''t'', manifest_cmd ''t'', pull_cmd ''t'']"
  using manage_docker_image_plan [of "\<lambda>cmd. if cmd = inspect_cmd ''t'' then 1 else 0" "\<lambda>_. []" "\<lambda>_. []"
      "sample_world\<lparr>w_exec := (\<lambda>tr fs cmd. (Done (if cmd = inspect_cmd ''t'' then 1 else 0) [] [], fs))\<rparr>"
      "''t''" "''/d''"
      "[''A'', ''1'']" "''/''" False
      "[''docker'', ''buildx'', ''build'', ''--tag'', ''t'', ''--file'', ''/d'', ''--build-arg'', ''A=1'', ''/'']"
      False "''r''"]
  by (simp add: answers_def sample_world_def build_cmd_def manage_plan_def missing_plan_def inspect_cmd_def manifest_cmd_def)

end
