(* ===== verification/Sha256.thy ===== *)
theory Sha256
  imports PyJson "HOL-Library.Word"
begin

text \<open>
  SHA-256 (FIPS 180-4) on byte strings, as \<^verbatim>\<open>hashlib.sha256\<close> computes it, with its hexadecimal
  digest.  The locale \<open>hex_digest\<close> is what the tag format relies on: a digest is 64 lower-case
  hexadecimal characters.  It is interpreted on \<open>hexdigest\<close>.
\<close>

unbundle bit_operations_syntax

type_synonym u32 = "32 word"

definition rotr :: "nat \<Rightarrow> u32 \<Rightarrow> u32" where
  "rotr n x = (drop_bit n x OR push_bit (32 - n) x)"

definition ch :: "u32 \<Rightarrow> u32 \<Rightarrow> u32 \<Rightarrow> u32" where
  "ch x y z = ((x AND y) XOR (NOT x AND z))"

definition maj :: "u32 \<Rightarrow> u32 \<Rightarrow> u32 \<Rightarrow> u32" where
  "maj x y z = ((x AND y) XOR (x AND z) XOR (y AND z))"

definition big_sigma0 :: "u32 \<Rightarrow> u32" where
  "big_sigma0 x = (rotr 2 x XOR rotr 13 x XOR rotr 22 x)"

definition big_sigma1 :: "u32 \<Rightarrow> u32" where
  "big_sigma1 x = (rotr 6 x XOR rotr 11 x XOR rotr 25 x)"

definition small_sigma0 :: "u32 \<Rightarrow> u32" where
  "small_sigma0 x = (rotr 7 x XOR rotr 18 x XOR drop_bit 3 x)"

definition small_sigma1 :: "u32 \<Rightarrow> u32" where
  "small_sigma1 x = (rotr 17 x XOR rotr 19 x XOR drop_bit 10 x)"

text \<open>The constants: the first 32 bits of the fractional parts of the cube roots of the first 64
  primes (the rounds) and of the square roots of the first eight (the initial state).  A root is
  found bit by bit.\<close>

definition primes :: "nat list" where
  "primes = filter (\<lambda>n. list_all (\<lambda>d. n mod d \<noteq> 0) [2..<n]) [2..<312]"

fun root_bits :: "nat \<Rightarrow> int \<Rightarrow> nat \<Rightarrow> int \<Rightarrow> int" where
  "root_bits k n 0 acc = acc"
| "root_bits k n (Suc b) acc =
     root_bits k n b (if (acc + 2 ^ b) ^ k \<le> n then acc + 2 ^ b else acc)"

definition frac_root :: "nat \<Rightarrow> nat \<Rightarrow> u32" where
  "frac_root k p = word_of_int (root_bits k (int p * 2 ^ (32 * k)) 37 0)"

definition round_constants :: "u32 list" where
  "round_constants = map (frac_root 3) primes"

record sha_state =
  sa :: u32
  sb :: u32
  sc :: u32
  sd :: u32
  se :: u32
  sf :: u32
  sg :: u32
  sh :: u32

definition initial_state :: sha_state where
  "initial_state =
     (let h = (\<lambda>i. frac_root 2 (primes ! i))
      in \<lparr>sa = h 0, sb = h 1, sc = h 2, sd = h 3, se = h 4, sf = h 5, sg = h 6, sh = h 7\<rparr>)"

text \<open>The padded message: a one bit, zeros, the bit length in eight bytes.\<close>

fun be_bytes :: "nat \<Rightarrow> nat \<Rightarrow> nat list" where
  "be_bytes 0 n = []"
| "be_bytes (Suc k) n = be_bytes k (n div 256) @ [n mod 256]"

definition pad :: "string \<Rightarrow> nat list" where
  "pad s =
     (let l = length s; z = (119 - l mod 64) mod 64
      in map of_char s @ [128] @ replicate z 0 @ be_bytes 8 (8 * l))"

fun words_of :: "nat list \<Rightarrow> u32 list" where
  "words_of (a # b # c # d # bs) =
     of_nat (((a * 256 + b) * 256 + c) * 256 + d) # words_of bs"
| "words_of _ = []"

text \<open>The message schedule: the sixteen words of a block, extended to sixty-four.  The most
  recent word is the head of the reversed list.\<close>

fun extend_schedule :: "nat \<Rightarrow> u32 list \<Rightarrow> u32 list" where
  "extend_schedule 0 rws = rws"
| "extend_schedule (Suc n) rws =
     extend_schedule n
       ((small_sigma1 (rws ! 1) + rws ! 6 + small_sigma0 (rws ! 14) + rws ! 15) # rws)"

definition schedule :: "u32 list \<Rightarrow> u32 list" where
  "schedule ws = rev (extend_schedule 48 (rev ws))"

definition sha_round :: "sha_state \<Rightarrow> u32 \<times> u32 \<Rightarrow> sha_state" where
  "sha_round st kw =
     (let t1 = sh st + big_sigma1 (se st) + ch (se st) (sf st) (sg st) + fst kw + snd kw;
          t2 = big_sigma0 (sa st) + maj (sa st) (sb st) (sc st)
      in \<lparr>sa = t1 + t2, sb = sa st, sc = sb st, sd = sc st, se = sd st + t1, sf = se st,
          sg = sf st, sh = sg st\<rparr>)"

definition compress :: "sha_state \<Rightarrow> u32 list \<Rightarrow> sha_state" where
  "compress st ws =
     (let r = foldl sha_round st (zip round_constants (schedule ws))
      in \<lparr>sa = sa st + sa r, sb = sb st + sb r, sc = sc st + sc r, sd = sd st + sd r,
          se = se st + se r, sf = sf st + sf r, sg = sg st + sg r, sh = sh st + sh r\<rparr>)"

fun blocks_fold :: "nat \<Rightarrow> sha_state \<Rightarrow> u32 list \<Rightarrow> sha_state" where
  "blocks_fold 0 st ws = st"
| "blocks_fold (Suc n) st ws = blocks_fold n (compress st (take 16 ws)) (drop 16 ws)"

definition state_words :: "sha_state \<Rightarrow> u32 list" where
  "state_words st = [sa st, sb st, sc st, sd st, se st, sf st, sg st, sh st]"

definition sha256 :: "string \<Rightarrow> u32 list" where
  "sha256 s =
     (let ws = words_of (pad s) in state_words (blocks_fold (length ws div 16) initial_state ws))"

fun hex_nat :: "nat \<Rightarrow> nat \<Rightarrow> string" where
  "hex_nat 0 n = []"
| "hex_nat (Suc k) n = hex_nat k (n div 16) @ [hex_digit (n mod 16)]"

definition hexdigest :: "string \<Rightarrow> string" where
  "hexdigest s = concat (map (\<lambda>w. hex_nat 8 (unat w)) (sha256 s))"

section \<open>The shape of a digest\<close>

definition is_hex :: "char \<Rightarrow> bool" where
  "is_hex c = (c \<in> set ''0123456789abcdef'')"

lemma hex_digit_is_hex: "n < 16 \<Longrightarrow> is_hex (hex_digit n)"
  unfolding is_hex_def hex_digit_def by (rule nth_mem) simp

lemma hex_nat_is_hex: "list_all is_hex (hex_nat k n)"
  by (induction k arbitrary: n) (auto simp: hex_digit_is_hex)

lemma length_hex_nat [simp]: "length (hex_nat k n) = k"
  by (induction k arbitrary: n) auto

lemma length_hex_words: "length (concat (map (\<lambda>w. hex_nat 8 (unat w)) ws)) = 8 * length ws"
  by (induction ws) auto

lemma hex_words_is_hex: "list_all is_hex (concat (map (\<lambda>w. hex_nat 8 (unat w)) ws))"
  by (induction ws) (auto simp: hex_nat_is_hex)

lemma length_sha256: "length (sha256 s) = 8"
  unfolding sha256_def Let_def state_words_def by (simp only: list.size)

locale hex_digest =
  fixes digest :: "string \<Rightarrow> string"
  assumes digest_length: "length (digest s) = 64"
    and digest_hex: "list_all is_hex (digest s)"
begin

lemma digest_ne: "digest s \<noteq> []"
  using digest_length [of s] by auto

lemma digest_no_sep: "c \<in> set (digest s) \<Longrightarrow> c \<noteq> CHR ''/'' \<and> c \<noteq> CHR '':'' \<and> c \<noteq> CHR ''-''"
proof -
  assume "c \<in> set (digest s)"
  then have "is_hex c" using digest_hex [of s] by (simp add: list_all_iff)
  then show ?thesis unfolding is_hex_def by auto
qed

end

interpretation sha: hex_digest hexdigest
proof
  fix s
  show "length (hexdigest s) = 64"
    using length_hex_words [of "sha256 s"] by (simp add: hexdigest_def length_sha256)
  show "list_all is_hex (hexdigest s)"
    using hex_words_is_hex by (simp only: hexdigest_def)
qed

end
