(* ===== verification/TopoSort.thy ===== *)
theory TopoSort
  imports Prelude
begin

text \<open>
  The topological sorter of Python's \<^verbatim>\<open>graphlib\<close>, which orders the image builds: adding nodes
  with their predecessors, and the static order, in which every round hands out the nodes whose
  predecessors are all done.  Shown: the order lists every node once, a node comes after its
  predecessors, and \<^verbatim>\<open>CycleError\<close> is raised exactly for a cyclic graph.
\<close>

type_synonym graph = "(string \<times> string list) list"

record tsorter =
  ts_nodes :: "string list"
  ts_npred :: "string \<Rightarrow> nat"
  ts_succ :: "string \<Rightarrow> string list"

definition ts_empty :: tsorter where
  "ts_empty = \<lparr>ts_nodes = [], ts_npred = (\<lambda>_. 0), ts_succ = (\<lambda>_. [])\<rparr>"

definition ts_node :: "string \<Rightarrow> tsorter \<Rightarrow> tsorter" where
  "ts_node n ts = (if n \<in> set (ts_nodes ts) then ts else ts\<lparr>ts_nodes := ts_nodes ts @ [n]\<rparr>)"

definition ts_add_pred :: "string \<Rightarrow> tsorter \<Rightarrow> string \<Rightarrow> tsorter" where
  "ts_add_pred node ts pred =
     (let t = ts_node pred ts
      in t\<lparr>ts_succ := (ts_succ t)(pred := ts_succ t pred @ [node])\<rparr>)"

definition ts_add :: "tsorter \<Rightarrow> string \<times> string list \<Rightarrow> tsorter" where
  "ts_add ts entry =
     (case entry of (node, preds) \<Rightarrow>
        let t = ts_node node ts;
            t' = t\<lparr>ts_npred := (ts_npred t)(node := ts_npred t node + length preds)\<rparr>
        in foldl (ts_add_pred node) t' preds)"

definition ts_init :: "graph \<Rightarrow> tsorter" where
  "ts_init g = foldl ts_add ts_empty g"

text \<open>\<^verbatim>\<open>done(*nodes)\<close>: every successor loses a predecessor, and becomes ready with its last one.\<close>

definition release :: "(string \<Rightarrow> nat) \<times> string list \<Rightarrow> string \<Rightarrow> (string \<Rightarrow> nat) \<times> string list" where
  "release st s =
     (let c = (fst st)(s := fst st s - 1) in (c, if c s = 0 then snd st @ [s] else snd st))"

fun done_nodes ::
  "(string \<Rightarrow> string list) \<Rightarrow> string list \<Rightarrow> (string \<Rightarrow> nat) \<times> string list \<Rightarrow>
   (string \<Rightarrow> nat) \<times> string list" where
  "done_nodes succ [] st = st"
| "done_nodes succ (m # ms) st = done_nodes succ ms (foldl release st (succ m))"

text \<open>The rounds; the fuel is the number of nodes, and every round hands out at least one.\<close>

fun rounds :: "nat \<Rightarrow> (string \<Rightarrow> string list) \<Rightarrow> (string \<Rightarrow> nat) \<Rightarrow> string list \<Rightarrow> string list" where
  "rounds 0 succ c ready = []"
| "rounds (Suc k) succ c ready =
     (if ready = [] then []
      else (let (c', ready') = done_nodes succ ready (c, []) in ready @ rounds k succ c' ready'))"

definition static_order :: "tsorter \<Rightarrow> exn + string list" where
  "static_order ts =
     (let out = rounds (length (ts_nodes ts)) (ts_succ ts) (ts_npred ts)
                  (filter (\<lambda>n. ts_npred ts n = 0) (ts_nodes ts))
      in if length out = length (ts_nodes ts) then Inr out else Inl CycleError)"

section \<open>The graph a sorter holds\<close>

definition preds :: "graph \<Rightarrow> string \<Rightarrow> string set" where
  "preds g n = (case map_of g n of None \<Rightarrow> {} | Some ps \<Rightarrow> set ps)"

definition g_nodes :: "graph \<Rightarrow> string set" where
  "g_nodes g = set (map fst g) \<union> (\<Union>(n, ps) \<in> set g. set ps)"

definition g_edges :: "graph \<Rightarrow> (string \<times> string) set" where
  "g_edges g = {(m, n). m \<in> preds g n}"

definition graph_wf :: "graph \<Rightarrow> bool" where
  "graph_wf g = (distinct (map fst g) \<and> (\<forall>(n, ps) \<in> set g. distinct ps))"

lemma ts_node_simps [simp]:
  "set (ts_nodes (ts_node n ts)) = insert n (set (ts_nodes ts))"
  "distinct (ts_nodes ts) \<Longrightarrow> distinct (ts_nodes (ts_node n ts))"
  "ts_npred (ts_node n ts) = ts_npred ts"
  "ts_succ (ts_node n ts) = ts_succ ts"
  by (auto simp: ts_node_def)

lemma ts_add_preds:
  assumes "distinct ps"
  shows "ts_npred (foldl (ts_add_pred node) ts ps) = ts_npred ts"
    and "set (ts_nodes (foldl (ts_add_pred node) ts ps)) = set (ts_nodes ts) \<union> set ps"
    and "distinct (ts_nodes ts) \<Longrightarrow> distinct (ts_nodes (foldl (ts_add_pred node) ts ps))"
    and "ts_succ (foldl (ts_add_pred node) ts ps) m =
           ts_succ ts m @ (if m \<in> set ps then [node] else [])"
  using assms by (induction ps arbitrary: ts) (auto simp: ts_add_pred_def Let_def)

lemma ts_add_simps:
  assumes "distinct ps"
  shows "ts_npred (ts_add ts (n, ps)) = (ts_npred ts)(n := ts_npred ts n + length ps)"
    and "set (ts_nodes (ts_add ts (n, ps))) = insert n (set (ts_nodes ts) \<union> set ps)"
    and "distinct (ts_nodes ts) \<Longrightarrow> distinct (ts_nodes (ts_add ts (n, ps)))"
    and "ts_succ (ts_add ts (n, ps)) m = ts_succ ts m @ (if m \<in> set ps then [n] else [])"
  using assms by (simp_all add: ts_add_def ts_add_preds)

lemma ts_init_simps:
  assumes "graph_wf g"
  shows "distinct (ts_nodes (ts_init g))"
    and "set (ts_nodes (ts_init g)) = g_nodes g"
    and "ts_npred (ts_init g) n = card (preds g n)"
    and "ts_succ (ts_init g) m = map fst (filter (\<lambda>(n, ps). m \<in> set ps) g)"
proof -
  have "distinct (ts_nodes (ts_init g)) \<and> set (ts_nodes (ts_init g)) = g_nodes g \<and>
     (\<forall>n. ts_npred (ts_init g) n = card (preds g n)) \<and>
     (\<forall>m. ts_succ (ts_init g) m = map fst (filter (\<lambda>(n, ps). m \<in> set ps) g))"
    using assms
  proof (induction g rule: rev_induct)
    case Nil
    then show ?case by (simp add: ts_init_def ts_empty_def g_nodes_def preds_def)
  next
    case (snoc e g)
    obtain n ps where e: "e = (n, ps)" by fastforce
    have wf: "graph_wf g" "distinct ps" "n \<notin> set (map fst g)"
      using snoc.prems by (auto simp: graph_wf_def e)
    have nn: "map_of g n = None" using wf(3) by (simp add: map_of_eq_None_iff)
    have np: "preds g n = {}" by (simp add: preds_def nn)
    have pr: "preds (g @ [(n, ps)]) k = (if k = n then set ps else preds g k)" for k
      by (cases "map_of g k") (auto simp: preds_def map_add_def nn)
    have init: "ts_init (g @ [e]) = ts_add (ts_init g) (n, ps)" by (simp add: ts_init_def e)
    note IH = snoc.IH [OF wf(1)]
    have "set (ts_nodes (ts_add (ts_init g) (n, ps))) = g_nodes (g @ [e])"
      using IH by (auto simp: ts_add_simps wf(2) g_nodes_def e)
    moreover have "distinct (ts_nodes (ts_add (ts_init g) (n, ps)))"
      using IH by (intro ts_add_simps(3) wf(2)) simp
    moreover have "ts_npred (ts_add (ts_init g) (n, ps)) k = card (preds (g @ [e]) k)" for k
      using IH by (simp add: ts_add_simps wf(2) e pr np distinct_card)
    moreover have "ts_succ (ts_add (ts_init g) (n, ps)) m =
        map fst (filter (\<lambda>(n, ps). m \<in> set ps) (g @ [e]))" for m
      using IH by (simp add: ts_add_simps wf(2) e)
    ultimately show ?case unfolding init by (intro conjI allI)
  qed
  then show "distinct (ts_nodes (ts_init g))" "set (ts_nodes (ts_init g)) = g_nodes g"
    "ts_npred (ts_init g) n = card (preds g n)"
    "ts_succ (ts_init g) m = map fst (filter (\<lambda>(n, ps). m \<in> set ps) g)"
    by auto
qed

lemma preds_iff: "graph_wf g \<Longrightarrow> m \<in> preds g n \<longleftrightarrow> (\<exists>ps. (n, ps) \<in> set g \<and> m \<in> set ps)"
proof (cases "map_of g n")
  case None
  then show ?thesis by (auto simp: preds_def dest: weak_map_of_SomeI)
next
  case (Some ps)
  moreover assume "graph_wf g"
  ultimately show ?thesis
    by (auto simp: preds_def graph_wf_def dest: map_of_SomeD eq_key_imp_eq_value)
qed

lemma preds_in_nodes: "graph_wf g \<Longrightarrow> m \<in> preds g n \<Longrightarrow> m \<in> g_nodes g"
  by (auto simp: preds_iff g_nodes_def)

lemma preds_source: "graph_wf g \<Longrightarrow> m \<in> preds g n \<Longrightarrow> n \<in> g_nodes g"
  by (auto simp: preds_iff g_nodes_def intro: rev_image_eqI)

lemma finite_preds [simp]: "finite (preds g n)"
  by (simp add: preds_def split: option.splits)

lemma ts_succ_set: "graph_wf g \<Longrightarrow> set (ts_succ (ts_init g) m) = {n. m \<in> preds g n}"
  by (auto simp: ts_init_simps(4) preds_iff intro: rev_image_eqI)

lemma ts_succ_distinct: "graph_wf g \<Longrightarrow> distinct (ts_succ (ts_init g) m)"
  by (simp add: ts_init_simps(4) graph_wf_def distinct_map_filter)

section \<open>Correctness of the static order\<close>

text \<open>
  The state between two releases: \<^term>\<open>D\<close> holds the edges released so far, \<^term>\<open>out\<close> the nodes
  handed out, \<^term>\<open>r\<close> the nodes that became ready since.
\<close>

definition round_inv ::
  "graph \<Rightarrow> (string \<times> string) set \<Rightarrow> string set \<Rightarrow> (string \<Rightarrow> nat) \<times> string list \<Rightarrow> bool" where
  "round_inv g D out st =
     (case st of (c, r) \<Rightarrow>
        distinct r \<and> set r \<inter> out = {} \<and> set r \<subseteq> g_nodes g \<and>
        (\<forall>n. c n = card {m \<in> preds g n. (m, n) \<notin> D}) \<and>
        (\<forall>n \<in> g_nodes g. c n = 0 \<longleftrightarrow> n \<in> out \<union> set r))"

lemma round_invD:
  assumes "round_inv g D out (c, r)"
  shows "distinct r" "set r \<inter> out = {}" "set r \<subseteq> g_nodes g"
    and "c n = card {m \<in> preds g n. (m, n) \<notin> D}"
    and "n \<in> g_nodes g \<Longrightarrow> c n = 0 \<longleftrightarrow> n \<in> out \<union> set r"
proof -
  note inv = assms [unfolded round_inv_def prod.case]
  show "distinct r" "set r \<inter> out = {}" "set r \<subseteq> g_nodes g"
    using inv by simp_all
  show "c n = card {m \<in> preds g n. (m, n) \<notin> D}"
    using inv by (elim conjE) (erule spec)
  show "n \<in> g_nodes g \<Longrightarrow> c n = 0 \<longleftrightarrow> n \<in> out \<union> set r"
    using inv by (elim conjE) (erule (1) bspec)
qed

lemma round_invI:
  assumes "distinct r" "set r \<inter> out = {}" "set r \<subseteq> g_nodes g"
    and "\<And>n. c n = card {m \<in> preds g n. (m, n) \<notin> D}"
    and "\<And>n. n \<in> g_nodes g \<Longrightarrow> c n = 0 \<longleftrightarrow> n \<in> out \<union> set r"
  shows "round_inv g D out (c, r)"
  unfolding round_inv_def prod.case by (intro conjI allI ballI assms)

lemma round_inv_release:
  assumes inv: "round_inv g D out st" and wf: "graph_wf g"
    and e: "m \<in> preds g n" "(m, n) \<notin> D"
  shows "round_inv g (insert (m, n) D) out (release st n)"
proof -
  obtain c r where st: "st = (c, r)" by fastforce
  let ?left = "{k \<in> preds g n. (k, n) \<notin> D}"
  have c: "c k = card {j \<in> preds g k. (j, k) \<notin> D}" for k using inv st round_invD(4) by blast
  have split: "?left = insert m {k \<in> preds g n. (k, n) \<notin> insert (m, n) D}" using e by auto
  have cn: "c n = Suc (card {k \<in> preds g n. (k, n) \<notin> insert (m, n) D})"
    by (subst c, subst split, rule card_insert_disjoint) auto
  have nodes: "n \<in> g_nodes g" by (rule preds_source [OF wf e(1)])
  have "c n \<noteq> 0" using cn by simp
  then have new: "n \<notin> out" "n \<notin> set r"
    using round_invD(5) [OF inv [unfolded st] nodes] by auto
  have other: "{j \<in> preds g k. (j, k) \<notin> insert (m, n) D} = {j \<in> preds g k. (j, k) \<notin> D}"
    if "k \<noteq> n" for k using that by auto
  define c' where "c' = c(n := c n - 1)"
  have c'n: "c' n = c n - 1" and c'o: "k \<noteq> n \<Longrightarrow> c' k = c k" for k by (simp_all add: c'_def)
  have c': "c' k = card {j \<in> preds g k. (j, k) \<notin> insert (m, n) D}" for k
  proof (cases "k = n")
    case True
    then show ?thesis using cn c'n by simp
  next
    case False
    show ?thesis unfolding c'o [OF False] other [OF False] by (rule c)
  qed
  note z = round_invD(5) [OF inv [unfolded st]] and r = round_invD(1-3) [OF inv [unfolded st]]
  have rel: "release st n = (c', if c' n = 0 then r @ [n] else r)"
    by (simp add: release_def st c'_def Let_def)
  have z': "c' k = 0 \<longleftrightarrow> k \<in> out \<union> set (if c' n = 0 then r @ [n] else r)" if "k \<in> g_nodes g" for k
    using z new that c'o by (cases "k = n") auto
  show ?thesis
    unfolding rel
  proof (rule round_invI [OF _ _ _ c' z'])
    show "distinct (if c' n = 0 then r @ [n] else r)" using r(1) new(2) by simp
    show "set (if c' n = 0 then r @ [n] else r) \<inter> out = {}" using r(2) new(1) by auto
    show "set (if c' n = 0 then r @ [n] else r) \<subseteq> g_nodes g" using r(3) nodes by auto
  qed
qed

lemma round_inv_foldl:
  assumes "round_inv g D out st" "graph_wf g" "distinct ns"
    and "\<forall>n \<in> set ns. m \<in> preds g n \<and> (m, n) \<notin> D"
  shows "round_inv g (D \<union> Pair m ` set ns) out (foldl release st ns)"
  using assms
proof (induction ns arbitrary: D st)
  case Nil
  then show ?case by simp
next
  case (Cons n ns)
  have "round_inv g (insert (m, n) D) out (release st n)"
    using Cons.prems by (intro round_inv_release) auto
  then have "round_inv g (insert (m, n) D \<union> Pair m ` set ns) out (foldl release (release st n) ns)"
    using Cons.prems by (intro Cons.IH) auto
  then show ?case by simp
qed

definition edges_from :: "graph \<Rightarrow> string set \<Rightarrow> (string \<times> string) set" where
  "edges_from g ms = {(m, n). m \<in> ms \<and> m \<in> preds g n}"

lemma round_inv_done:
  assumes "round_inv g (edges_from g D) out st" "graph_wf g" "distinct ms" "set ms \<inter> D = {}"
  shows "round_inv g (edges_from g (D \<union> set ms)) out (done_nodes (ts_succ (ts_init g)) ms st)"
  using assms
proof (induction ms arbitrary: D st)
  case Nil
  then show ?case by simp
next
  case (Cons m ms)
  have "round_inv g (edges_from g D \<union> Pair m ` set (ts_succ (ts_init g) m)) out
          (foldl release st (ts_succ (ts_init g) m))"
    using Cons.prems
    by (intro round_inv_foldl) (auto simp: ts_succ_set ts_succ_distinct edges_from_def)
  moreover have "edges_from g D \<union> Pair m ` set (ts_succ (ts_init g) m) = edges_from g (insert m D)"
    by (auto simp: ts_succ_set [OF Cons.prems(2)] edges_from_def)
  ultimately have "round_inv g (edges_from g (insert m D \<union> set ms)) out
      (done_nodes (ts_succ (ts_init g)) ms (foldl release st (ts_succ (ts_init g) m)))"
    using Cons.prems by (intro Cons.IH) auto
  then show ?case by simp
qed

text \<open>Between two rounds every node handed out is done.\<close>

definition ready_inv :: "graph \<Rightarrow> string set \<Rightarrow> (string \<Rightarrow> nat) \<times> string list \<Rightarrow> bool" where
  "ready_inv g out st = round_inv g (edges_from g out) out st"

lemma ready_inv_ready:
  assumes "ready_inv g out (c, r)" "n \<in> set r" "graph_wf g"
  shows "preds g n \<subseteq> out" "n \<notin> out" "n \<in> g_nodes g"
proof -
  note inv = round_invD [OF assms(1) [unfolded ready_inv_def]]
  show n: "n \<notin> out" "n \<in> g_nodes g" using inv(2,3) assms(2) by auto
  have "card {m \<in> preds g n. (m, n) \<notin> edges_from g out} = c n" by (rule inv(4) [symmetric])
  also have "\<dots> = 0" using inv(5) [OF n(2)] assms(2) by simp
  finally have "{m \<in> preds g n. (m, n) \<notin> edges_from g out} = {}" by simp
  then show "preds g n \<subseteq> out" by (auto simp: edges_from_def)
qed

lemma ready_inv_step:
  assumes "ready_inv g out (c, r)" "graph_wf g"
  shows "ready_inv g (out \<union> set r) (done_nodes (ts_succ (ts_init g)) r (c, []))"
proof -
  note inv = round_invD [OF assms(1) [unfolded ready_inv_def]]
  have "round_inv g (edges_from g out) (out \<union> set r) (c, [])"
  proof (rule round_invI [OF _ _ _ inv(4)])
    show "n \<in> g_nodes g \<Longrightarrow> (c n = 0) = (n \<in> out \<union> set r \<union> set [])" for n using inv(5) by simp
  qed simp_all
  moreover have "distinct r" "set r \<inter> out = {}" by (rule inv)+
  ultimately show ?thesis
    unfolding ready_inv_def using assms(2) by (intro round_inv_done) auto
qed

text \<open>An order in which every node follows its predecessors, after the nodes of \<^term>\<open>out\<close>.\<close>

fun topo_after :: "graph \<Rightarrow> string set \<Rightarrow> string list \<Rightarrow> bool" where
  "topo_after g out [] = True"
| "topo_after g out (n # ns) = (n \<notin> out \<and> preds g n \<subseteq> out \<and> topo_after g (insert n out) ns)"

lemma topo_after_layer:
  "distinct r \<Longrightarrow> set r \<inter> out = {} \<Longrightarrow> \<forall>n \<in> set r. preds g n \<subseteq> ok \<Longrightarrow> ok \<subseteq> out \<Longrightarrow>
   topo_after g (out \<union> set r) ns \<Longrightarrow> topo_after g out (r @ ns)"
proof (induction r arbitrary: out)
  case (Cons n r)
  have "topo_after g (insert n out) (r @ ns)"
    using Cons.prems by (intro Cons.IH) auto
  then show ?case using Cons.prems by auto
qed simp

lemma rounds_topo:
  assumes "ready_inv g out (c, r)" "graph_wf g"
  shows "topo_after g out (rounds k (ts_succ (ts_init g)) c r)"
  using assms(1)
proof (induction k arbitrary: out c r)
  case (Suc k)
  obtain c' r' where st: "done_nodes (ts_succ (ts_init g)) r (c, []) = (c', r')" by fastforce
  have "topo_after g (out \<union> set r) (rounds k (ts_succ (ts_init g)) c' r')"
    using Suc.IH ready_inv_step [OF Suc.prems assms(2)] st by simp
  moreover have "distinct r" "set r \<inter> out = {}"
    using round_invD(1,2) [OF Suc.prems [unfolded ready_inv_def]] by simp_all
  ultimately show ?case
    using ready_inv_ready(1) [OF Suc.prems _ assms(2)]
    by (auto simp: st intro!: topo_after_layer [where ok = out])
qed simp

lemma topo_after_distinct: "topo_after g out ns \<Longrightarrow> distinct ns \<and> set ns \<inter> out = {}"
  by (induction ns arbitrary: out) auto

lemma topo_after_split: "topo_after g out (xs @ n # ys) \<Longrightarrow> preds g n \<subseteq> out \<union> set xs"
  by (induction xs arbitrary: out) auto

lemma rounds_nodes:
  assumes "ready_inv g out (c, r)" "graph_wf g"
  shows "set (rounds k (ts_succ (ts_init g)) c r) \<subseteq> g_nodes g"
  using assms(1)
proof (induction k arbitrary: out c r)
  case (Suc k)
  obtain c' r' where st: "done_nodes (ts_succ (ts_init g)) r (c, []) = (c', r')" by fastforce
  have "set (rounds k (ts_succ (ts_init g)) c' r') \<subseteq> g_nodes g"
    using Suc.IH ready_inv_step [OF Suc.prems assms(2)] st by simp
  then show ?case using round_invD(3) [OF Suc.prems [unfolded ready_inv_def]] by (simp add: st)
qed simp

lemma finite_g_nodes [simp]: "finite (g_nodes g)"
  by (auto simp: g_nodes_def)

lemma rounds_stuck:
  assumes "ready_inv g out (c, r)" "graph_wf g" "card (g_nodes g - out) \<le> k"
    and "n \<in> g_nodes g" "n \<notin> out \<union> set (rounds k (ts_succ (ts_init g)) c r)"
  shows "\<not> preds g n \<subseteq> out \<union> set (rounds k (ts_succ (ts_init g)) c r)"
  using assms(1,3-5)
proof (induction k arbitrary: out c r)
  case 0
  then have "g_nodes g - out = {}" by (simp add: card_eq_0_iff)
  then show ?case using 0 by auto
next
  case (Suc k)
  note inv = round_invD [OF Suc.prems(1) [unfolded ready_inv_def]]
  obtain c' r' where st: "done_nodes (ts_succ (ts_init g)) r (c, []) = (c', r')" by fastforce
  show ?case
  proof (cases "r = []")
    case True
    then have "c n \<noteq> 0" using inv(5) [OF Suc.prems(3)] Suc.prems(4) by simp
    then have "card {m \<in> preds g n. (m, n) \<notin> edges_from g out} \<noteq> 0" using inv(4) by metis
    then have "{m \<in> preds g n. (m, n) \<notin> edges_from g out} \<noteq> {}" by force
    then show ?thesis using True by (auto simp: edges_from_def)
  next
    case False
    then obtain a where a: "a \<in> set r" by (cases r) auto
    have "g_nodes g - (out \<union> set r) \<subset> g_nodes g - out" using inv(2,3) a by blast
    then have "card (g_nodes g - (out \<union> set r)) < card (g_nodes g - out)"
      by (intro psubset_card_mono) simp_all
    then have k: "card (g_nodes g - (out \<union> set r)) \<le> k" using Suc.prems(2) by simp
    have inv': "ready_inv g (out \<union> set r) (c', r')"
      using ready_inv_step [OF Suc.prems(1) assms(2)] st by simp
    show ?thesis
      using Suc.IH [OF inv' k Suc.prems(3)] Suc.prems(4) False by (simp add: st Un_assoc)
  qed
qed

lemma ready_inv_init:
  assumes "graph_wf g"
  shows "ready_inv g {} (ts_npred (ts_init g), filter (\<lambda>n. ts_npred (ts_init g) n = 0) (ts_nodes (ts_init g)))"
  unfolding ready_inv_def using assms
  by (intro round_invI) (simp_all add: ts_init_simps edges_from_def)

text \<open>A successful order, and failure exactly on a cycle.\<close>

definition topological :: "graph \<Rightarrow> string list \<Rightarrow> bool" where
  "topological g ns =
     (distinct ns \<and> set ns = g_nodes g \<and>
      (\<forall>xs n ys. ns = xs @ n # ys \<longrightarrow> preds g n \<subseteq> set xs))"

lemma static_order_sound:
  assumes "graph_wf g" "static_order (ts_init g) = Inr ns"
  shows "topological g ns"
proof -
  have ns: "ns = rounds (length (ts_nodes (ts_init g))) (ts_succ (ts_init g)) (ts_npred (ts_init g))
              (filter (\<lambda>n. ts_npred (ts_init g) n = 0) (ts_nodes (ts_init g)))"
    and len: "length ns = length (ts_nodes (ts_init g))"
    using assms(2) by (auto simp: static_order_def Let_def split: if_splits)
  have topo: "topo_after g {} ns" unfolding ns by (rule rounds_topo [OF ready_inv_init]) (rule assms)+
  have "set ns \<subseteq> g_nodes g" unfolding ns by (rule rounds_nodes [OF ready_inv_init]) (rule assms)+
  moreover have d: "distinct ns" using topo_after_distinct [OF topo] by simp
  moreover have "card (set ns) = card (g_nodes g)"
    using len distinct_card [OF d] distinct_card [OF ts_init_simps(1) [OF assms(1)]]
    by (simp add: ts_init_simps(2) assms(1))
  ultimately have "set ns = g_nodes g" by (intro card_subset_eq) simp_all
  then show ?thesis using d topo_after_split topo by (fastforce simp: topological_def)
qed

lemma takeWhile_neq: "n \<notin> set xs \<Longrightarrow> takeWhile (\<lambda>x. x \<noteq> n) (xs @ n # ys) = xs"
  by (induction xs) auto

lemma topological_acyclic:
  assumes "topological g ns" "graph_wf g"
  shows "acyclic (g_edges g)"
proof -
  define pos where "pos = (\<lambda>n. length (takeWhile (\<lambda>x. x \<noteq> n) ns))"
  have "pos m < pos n" if e: "(m, n) \<in> g_edges g" for m n
  proof -
    have "n \<in> set ns" using e assms preds_source by (auto simp: g_edges_def topological_def)
    then obtain xs ys where ns: "ns = xs @ n # ys" by (auto simp: in_set_conv_decomp)
    have "preds g n \<subseteq> set xs" using assms(1) ns unfolding topological_def by blast
    then have m: "m \<in> set xs" using e by (auto simp: g_edges_def)
    have "n \<notin> set xs" using assms(1) ns by (auto simp: topological_def)
    then have "pos n = length xs" by (simp add: pos_def ns takeWhile_neq)
    moreover obtain us vs where xs: "xs = us @ m # vs" "m \<notin> set us"
      using m by (auto dest: split_list_first)
    moreover have "pos m = length us"
      using xs(2) by (simp add: pos_def ns xs(1) takeWhile_neq)
    ultimately show ?thesis by simp
  qed
  then have "g_edges g \<subseteq> measure pos" by auto
  then show ?thesis using wf_subset [OF wf_measure] wf_acyclic by blast
qed

lemma finite_g_edges: "graph_wf g \<Longrightarrow> finite (g_edges g)"
  by (rule finite_subset [of _ "g_nodes g \<times> g_nodes g"])
    (auto simp: g_edges_def dest: preds_in_nodes preds_source)

lemma static_order_complete:
  assumes "graph_wf g" "acyclic (g_edges g)"
  shows "\<exists>ns. static_order (ts_init g) = Inr ns"
proof (rule ccontr)
  assume fail: "\<nexists>ns. static_order (ts_init g) = Inr ns"
  let ?k = "length (ts_nodes (ts_init g))"
  let ?r = "filter (\<lambda>n. ts_npred (ts_init g) n = 0) (ts_nodes (ts_init g))"
  define ns where "ns = rounds ?k (ts_succ (ts_init g)) (ts_npred (ts_init g)) ?r"
  note inv = ready_inv_init [OF assms(1)]
  have k: "?k = card (g_nodes g)"
    using distinct_card [OF ts_init_simps(1) [OF assms(1)]] by (simp add: ts_init_simps(2) assms(1))
  have "length ns \<noteq> ?k" using fail by (auto simp: static_order_def ns_def Let_def split: if_splits)
  moreover have "distinct ns"
    using rounds_topo [OF inv assms(1)] topo_after_distinct unfolding ns_def by blast
  ultimately have "set ns \<noteq> g_nodes g" using k distinct_card by metis
  moreover have "set ns \<subseteq> g_nodes g" unfolding ns_def by (rule rounds_nodes [OF inv assms(1)])
  ultimately obtain u where u: "u \<in> g_nodes g - set ns" by blast
  have stuck: "\<exists>m. m \<in> preds g n \<and> m \<in> g_nodes g - set ns" if "n \<in> g_nodes g - set ns" for n
    using rounds_stuck [OF inv assms(1), of ?k n] that k preds_in_nodes [OF assms(1)]
    unfolding ns_def by auto
  have "wf (g_edges g)" by (rule finite_acyclic_wf [OF finite_g_edges [OF assms(1)] assms(2)])
  then obtain z where "z \<in> g_nodes g - set ns" "\<forall>y. (y, z) \<in> g_edges g \<longrightarrow> y \<notin> g_nodes g - set ns"
    using u by (meson wfE_min)
  then show False using stuck by (auto simp: g_edges_def)
qed

lemma static_order_error: "static_order ts = Inl e \<Longrightarrow> e = CycleError"
  by (auto simp: static_order_def Let_def split: if_splits)

end
