(* ===== verification/DockerBuild.thy ===== *)
theory DockerBuild
  imports DockerConfig DockerImages Sha256 TopoSort
begin

text \<open>
  The image builder of \<^verbatim>\<open>src/.devkit/scripts/docker/build.py\<close> (lines 255 to 551): the content
  address of an image, the dependency closure of the targets and its topological order, the class
  \<^verbatim>\<open>DockerBuilder\<close> with the loading of its configuration, the computation of tags and the build
  loop.  The docker commands that the loop issues are in \<^verbatim>\<open>DockerImages\<close>.

  The object is the record \<open>builder\<close>; a method takes it and returns it updated.  Python's
  recursion limit bounds \<open>calculate_tag_for_image\<close>: the first argument counts the frames left.
  A dependency whose name is not a string raises \<^verbatim>\<open>TypeError\<close> where the graph is built.
\<close>

section \<open>Content address and dependency graph\<close>

definition calculate_sha256 :: "path \<Rightarrow> string list \<Rightarrow> string io" where
  "calculate_sha256 dockerfile_path sorted_build_args =
     bindM (read_bytes dockerfile_path) (\<lambda>content.
       retM (hexdigest (content @ concat sorted_build_args)))"

text \<open>\<^verbatim>\<open>conf["deps"].items()\<close>\<close>

fun dep_entry :: "string \<times> json \<Rightarrow> exn + string \<times> string" where
  "dep_entry (k, JStr s) = Inr (k, s)"
| "dep_entry (k, v) = Inl (TypeError (''image name of type '' @ type_name v))"

definition deps_of :: "json \<Rightarrow> exn + (string \<times> string) list" where
  "deps_of conf =
     bindE (json_get conf ''deps'') (\<lambda>deps.
       case deps of
         JObj kvs \<Rightarrow> mapE dep_entry kvs
       | v \<Rightarrow> Inl (AttributeError (type_name v @ '' object has no attribute values'')))"

text \<open>\<^verbatim>\<open>{name: set(conf["deps"].values()) for name, conf in ...}\<close>: a set is a duplicate-free list.\<close>

definition dependency_graph :: "json dict \<Rightarrow> exn + graph" where
  "dependency_graph configs =
     mapE (\<lambda>(name, conf). bindE (deps_of conf) (\<lambda>deps. Inr (name, remdups (map snd deps)))) configs"

text \<open>\<^verbatim>\<open>set.pop()\<close> takes the first element in iteration order.\<close>

definition set_pop :: "(string list \<Rightarrow> string list) \<Rightarrow> string list \<Rightarrow> string" where
  "set_pop order xs = (case filter (\<lambda>x. x \<in> set xs) (order xs) of [] \<Rightarrow> hd xs | x # _ \<Rightarrow> x)"

definition set_union :: "string list \<Rightarrow> string list \<Rightarrow> string list" where
  "set_union xs ys = xs @ filter (\<lambda>y. y \<notin> set xs) (remdups ys)"

definition unvisited_weight :: "graph \<Rightarrow> string list \<Rightarrow> nat" where
  "unvisited_weight g visited =
     sum_list (map (\<lambda>(n, ps). if n \<in> set visited then 0 else length ps) g)"

lemma set_pop_in: "xs \<noteq> [] \<Longrightarrow> set_pop order xs \<in> set xs"
proof (cases "filter (\<lambda>x. x \<in> set xs) (order xs)")
  case (Cons y ys)
  then have "y \<in> {x \<in> set (order xs). x \<in> set xs}" by (metis list.set_intros(1) set_filter)
  then show ?thesis using Cons by (simp add: set_pop_def)
qed (simp add: set_pop_def)

lemma length_set_union: "length (set_union xs ys) \<le> length xs + length ys"
  unfolding set_union_def
  by (simp, meson length_filter_le length_remdups_leq order_trans)

lemma unvisited_weight_visit:
  assumes "map_of g n = Some ps" "n \<notin> set visited"
  shows "unvisited_weight g (visited @ [n]) + length ps \<le> unvisited_weight g visited"
proof -
  have le: "unvisited_weight g (visited @ [n]) \<le> unvisited_weight g visited" for g
    by (induction g) (auto simp: unvisited_weight_def)
  show ?thesis
    using assms
  proof (induction g)
    case (Cons e g)
    obtain k qs where e: "e = (k, qs)" by fastforce
    show ?case
    proof (cases "k = n")
      case True
      then show ?thesis using Cons.prems le [of g] by (simp add: unvisited_weight_def e)
    next
      case False
      then show ?thesis using Cons by (simp add: unvisited_weight_def e)
    qed
  qed simp
qed

function visit_dependencies ::
  "(string list \<Rightarrow> string list) \<Rightarrow> graph \<Rightarrow> string list \<Rightarrow> string list \<Rightarrow> string list" where
  "visit_dependencies order full_graph nodes_to_visit visited_nodes =
     (if nodes_to_visit = [] then visited_nodes
      else (let current_node = set_pop order nodes_to_visit;
                rest = remove1 current_node nodes_to_visit
            in if current_node \<in> set visited_nodes
               then visit_dependencies order full_graph rest visited_nodes
               else (case map_of full_graph current_node of
                       None \<Rightarrow> visit_dependencies order full_graph rest (visited_nodes @ [current_node])
                     | Some deps \<Rightarrow>
                         visit_dependencies order full_graph (set_union rest deps)
                           (visited_nodes @ [current_node]))))"
  by pat_completeness auto

lemma unvisited_weight_skip: "unvisited_weight g (visited @ [n]) \<le> unvisited_weight g visited"
  by (induction g) (auto simp: unvisited_weight_def)

termination visit_dependencies
proof (relation "measure (\<lambda>(ord, g, todo, visited). length todo + unvisited_weight g visited)")
  fix order g todo visited current rest
  assume todo: "todo \<noteq> []" and current: "current = set_pop order todo"
    and rest: "rest = remove1 current todo"
  have len: "length rest < length todo"
    using todo current rest set_pop_in [OF todo, of order] by (simp add: length_remove1)
  show "((order, g, rest, visited), order, g, todo, visited)
      \<in> measure (\<lambda>(ord, g, todo, visited). length todo + unvisited_weight g visited)"
    using len by simp
  show "((order, g, rest, visited @ [current]), order, g, todo, visited)
      \<in> measure (\<lambda>(ord, g, todo, visited). length todo + unvisited_weight g visited)"
    using len unvisited_weight_skip [of g visited current] by simp
  fix deps
  assume deps: "map_of g current = Some deps" and new: "current \<notin> set visited"
  show "((order, g, set_union rest deps, visited @ [current]), order, g, todo, visited)
      \<in> measure (\<lambda>(ord, g, todo, visited). length todo + unvisited_weight g visited)"
    using len length_set_union [of rest deps] unvisited_weight_visit [OF deps new] by simp
qed simp

declare visit_dependencies.simps [simp del]

text \<open>The sorter iterates over each predecessor set.\<close>

definition sorter_graph :: "(string list \<Rightarrow> string list) \<Rightarrow> graph \<Rightarrow> graph" where
  "sorter_graph order g = map (\<lambda>(n, ps). (n, order ps)) g"

definition dependency_subgraph ::
  "(string list \<Rightarrow> string list) \<Rightarrow> graph \<Rightarrow> string list \<Rightarrow> graph" where
  "dependency_subgraph order full_graph target_image_names =
     (let visited_nodes = visit_dependencies order full_graph (remdups target_image_names) []
      in map (\<lambda>node. (node, the (map_of full_graph node)))
           (filter (\<lambda>node. node \<in> set (dict_keys full_graph)) (order visited_nodes)))"

definition get_dependency_subgraph :: "string list \<Rightarrow> json dict \<Rightarrow> string list io" where
  "get_dependency_subgraph target_image_names image_configs_map =
     bindM (liftM (dependency_graph image_configs_map)) (\<lambda>full_graph.
     bindM (getM w_order) (\<lambda>order.
       case static_order
              (ts_init (sorter_graph order (dependency_subgraph order full_graph target_image_names))) of
         Inr nodes \<Rightarrow> retM nodes
       | Inl e \<Rightarrow>
           bindM (log_error (''Cycle detected in dependencies: '' @ exn_str e)) (\<lambda>_. sys_exit 1)))"

section \<open>The builder\<close>

record builder =
  config_path :: path
  search_paths :: "path list"
  repo :: string
  namespace :: string
  arch :: string
  extra_packages_map :: "string list dict"
  extra_keys_map :: "string list dict"
  extra_repositories_map :: "string list dict"
  image_configs_map :: "json dict"
  generated_tags :: "string dict"

definition new_builder :: "path \<Rightarrow> path list \<Rightarrow> builder" where
  "new_builder cfg paths =
     \<lparr>config_path = cfg, search_paths = paths, repo = [], namespace = ''devkit'', arch = ''amd64'',
      extra_packages_map = [], extra_keys_map = [], extra_repositories_map = [],
      image_configs_map = [], generated_tags = []\<rparr>"

definition load_registry_config :: "builder \<Rightarrow> json \<Rightarrow> exn + builder" where
  "load_registry_config b config =
     bindE (parse_registry_config config) (\<lambda>(r, n). Inr (b\<lparr>repo := r, namespace := n\<rparr>))"

text \<open>\<^verbatim>\<open>value.items()\<close>\<close>

fun json_items :: "json \<Rightarrow> exn + json dict" where
  "json_items (JObj kvs) = Inr kvs"
| "json_items v = Inl (AttributeError (type_name v @ '' object has no attribute items''))"

definition pair_of :: "string \<times> json \<Rightarrow> string" where
  "pair_of kv = (case kv of (k, v) \<Rightarrow> k @ ''='' @ json_str v)"

fun load_packages :: "string \<Rightarrow> json dict \<Rightarrow> string list \<Rightarrow> string list io" where
  "load_packages img [] packages = retM packages"
| "load_packages img ((k, v) # kvs) packages =
     (if \<not> truthy v then
        bindM (log_error (''Package '' @ k @ '' in image '' @ img @ '' has an empty version. '' @
                 ''Please specify a version or use '' @ quoted ''*'' @ ''.'')) (\<lambda>_. sys_exit 1)
      else load_packages img kvs (packages @ [pair_of (k, v)]))"

definition load_image_packages :: "builder \<Rightarrow> string \<Rightarrow> json \<Rightarrow> builder io" where
  "load_image_packages b img settings =
     bindM (liftM (json_in ''packages'' settings)) (\<lambda>present.
     if \<not> present then retM b else
     bindM (liftM (bindE (json_get settings ''packages'') json_items)) (\<lambda>kvs.
     bindM (load_packages img kvs []) (\<lambda>packages.
       retM (b\<lparr>extra_packages_map := dict_set (extra_packages_map b) img packages\<rparr>))))"

definition load_image_keys :: "builder \<Rightarrow> string \<Rightarrow> json \<Rightarrow> exn + builder" where
  "load_image_keys b img settings =
     bindE (json_in ''keys'' settings) (\<lambda>present.
     if \<not> present then Inr b else
     bindE (bindE (json_get settings ''keys'') json_items) (\<lambda>kvs.
       Inr (b\<lparr>extra_keys_map := dict_set (extra_keys_map b) img (map pair_of kvs)\<rparr>)))"

definition load_image_repositories :: "builder \<Rightarrow> string \<Rightarrow> json \<Rightarrow> exn + builder" where
  "load_image_repositories b img settings =
     bindE (json_in ''repositories'' settings) (\<lambda>present.
     if \<not> present then Inr b else
     bindE (bindE (json_get settings ''repositories'') json_items) (\<lambda>kvs.
       Inr (b\<lparr>extra_repositories_map :=
                dict_set (extra_repositories_map b) img (map pair_of kvs)\<rparr>)))"

definition load_image_settings :: "builder \<Rightarrow> string \<times> json \<Rightarrow> builder io" where
  "load_image_settings b entry =
     (case entry of (img, settings) \<Rightarrow>
        bindM (load_image_packages b img settings) (\<lambda>b1.
        bindM (liftM (load_image_keys b1 img settings)) (\<lambda>b2.
          liftM (load_image_repositories b2 img settings))))"

definition load_images_config :: "builder \<Rightarrow> json \<Rightarrow> builder io" where
  "load_images_config b config =
     bindM (liftM (json_get config ''docker'')) (\<lambda>docker.
     bindM (liftM (json_in ''images'' docker)) (\<lambda>present.
     if \<not> present then retM b else
     bindM (liftM (bindE (json_get docker ''images'') json_items)) (\<lambda>images.
       foldM load_image_settings b images)))"

definition load_config :: "builder \<Rightarrow> builder io" where
  "load_config b =
     bindM (path_exists (config_path b)) (\<lambda>ex.
     if \<not> ex then
       bindM (log_info (''devkit.json config file not found: '' @ str_path (config_path b)))
         (\<lambda>_. retM b)
     else
     bindM (read_bytes (config_path b)) (\<lambda>bytes.
       catchM
         (bindM (liftM (bindE (decode_text bytes) json_loads)) (\<lambda>config.
          bindM (liftM (validate_config config CONFIG_SCHEMA [])) (\<lambda>_.
          bindM (liftM (json_in ''docker'' config)) (\<lambda>present.
          if \<not> present then retM b else
          bindM (liftM (load_registry_config b config)) (\<lambda>b1. load_images_config b1 config)))))
         is_value_error
         (\<lambda>e. bindM (log_error (''Could not load '' @ str_path (config_path b) @ '': '' @ exn_str e))
                (\<lambda>_. sys_exit 1))))"

text \<open>\<^verbatim>\<open>DockerBuilder(config_path, search_paths)\<close>\<close>

definition init_builder :: "path \<Rightarrow> path list \<Rightarrow> builder io" where
  "init_builder cfg paths =
     bindM (load_config (new_builder cfg paths)) (\<lambda>b.
     bindM (load_image_configs (search_paths b)) (\<lambda>configs.
       retM (b\<lparr>image_configs_map := configs\<rparr>)))"

definition get_image_tag :: "builder \<Rightarrow> string \<Rightarrow> string \<Rightarrow> string" where
  "get_image_tag b image_name sha =
     (let image_path = namespace b @ ''/'' @ image_name; tag_suffix = arch b @ ''-'' @ sha
      in if repo b \<noteq> [] then repo b @ ''/'' @ image_path @ '':'' @ tag_suffix
         else image_path @ '':'' @ tag_suffix)"

definition build_order_all :: "json dict \<Rightarrow> string list io" where
  "build_order_all configs =
     bindM (liftM (dependency_graph configs)) (\<lambda>full_graph.
     bindM (getM w_order) (\<lambda>order.
       case static_order (ts_init (sorter_graph order full_graph)) of
         Inr nodes \<Rightarrow> bindM (log_info ''Processing all Docker images...'') (\<lambda>_. retM nodes)
       | Inl e \<Rightarrow>
           bindM (log_error (''Cycle detected in image dependencies: '' @ exn_str e))
             (\<lambda>_. sys_exit 1)))"

definition get_build_order :: "builder \<Rightarrow> string list \<Rightarrow> string list io" where
  "get_build_order b target_images =
     (if target_images \<noteq> [] then
        bindM (get_dependency_subgraph target_images (image_configs_map b)) (\<lambda>images_to_process.
        bindM (log_info (''Processing Docker images '' @ join '', '' target_images @
                 '' and their dependencies: '' @ join '', '' images_to_process @ ''...'')) (\<lambda>_.
          retM images_to_process))
      else build_order_all (image_configs_map b))"

text \<open>The search for the Dockerfile: \<^verbatim>\<open>os.path.join\<close> and \<^verbatim>\<open>os.path.exists\<close> on each path.\<close>

fun find_dockerfile :: "path list \<Rightarrow> string \<Rightarrow> path option io" where
  "find_dockerfile [] name = retM None"
| "find_dockerfile (p # ps) name =
     (let potential_path = path_of (os_join (str_path p) name)
      in bindM (path_exists potential_path) (\<lambda>ex.
           if ex then retM (Some potential_path) else find_dockerfile ps name))"

definition dockerfile_name :: "string \<Rightarrow> string" where
  "dockerfile_name image_name = image_name @ ''.Dockerfile''"

text \<open>The build arguments that come from the configuration.\<close>

definition extra_args :: "builder \<Rightarrow> string \<Rightarrow> (string \<times> string) list" where
  "extra_args b image_name =
     concat (map (\<lambda>(m, arg_name).
         let val = (case map_of m image_name of None \<Rightarrow> [] | Some v \<Rightarrow> v)
         in if val \<noteq> [] then [(arg_name, join '' '' val)] else [])
       [(extra_packages_map b, ''EXTRA_PACKAGES''), (extra_keys_map b, ''EXTRA_KEYS''),
        (extra_repositories_map b, ''EXTRA_REPOSITORIES'')])"

definition arg_pair :: "string \<times> string \<Rightarrow> string" where
  "arg_pair av = fst av @ ''='' @ snd av"

text \<open>\<^verbatim>\<open>self.image_configs_map[image_name]\<close> and its \<^verbatim>\<open>["deps"]\<close>\<close>

definition image_deps :: "builder \<Rightarrow> string \<Rightarrow> exn + (string \<times> string) list" where
  "image_deps b image_name =
     (case map_of (image_configs_map b) image_name of
        None \<Rightarrow> Inl (KeyError image_name)
      | Some conf \<Rightarrow> deps_of conf)"

text \<open>The part after the dependencies have their tags: the arguments are sorted and hashed with the
  Dockerfile, and the tag is stored.\<close>

definition store_tag :: "builder \<Rightarrow> string \<Rightarrow> path \<Rightarrow> string list \<Rightarrow> (string \<times> builder) io" where
  "store_tag b image_name dockerfile_path dep_args =
     bindM (calculate_sha256 dockerfile_path
              (sort (dep_args @ map arg_pair (extra_args b image_name)))) (\<lambda>sha.
     let tag = get_image_tag b image_name sha
     in bindM (log_info (''Tag for '' @ image_name @ '': '' @ tag)) (\<lambda>_.
          retM (tag, b\<lparr>generated_tags := dict_set (generated_tags b) image_name tag\<rparr>)))"

fun calculate_tag_for_image :: "nat \<Rightarrow> builder \<Rightarrow> string \<Rightarrow> (string \<times> builder) io" where
  "calculate_tag_for_image 0 b image_name = raiseM RecursionError"
| "calculate_tag_for_image (Suc frames) b image_name =
     (case map_of (generated_tags b) image_name of
        Some tag \<Rightarrow> retM (tag, b)
      | None \<Rightarrow>
          bindM (log_info (''=== Calculating tag for: '' @ image_name @ '' ==='')) (\<lambda>_.
          bindM (liftM (image_deps b image_name)) (\<lambda>dependencies.
          bindM (find_dockerfile (search_paths b) (dockerfile_name image_name)) (\<lambda>found.
          case found of
            None \<Rightarrow>
              bindM (log_error (''Dockerfile '' @ dockerfile_name image_name @ '' not found for image '' @
                       quoted image_name @ '' in any of the search paths: ['' @
                       join '', '' (map (\<lambda>p. ''PosixPath('' @ repr_str (str_path p) @ '')'')
                         (search_paths b)) @ ''].''))
                (\<lambda>_. sys_exit 1)
          | Some p \<Rightarrow>
              bindM (path_resolve p) (\<lambda>dockerfile_path.
              bindM (foldM (\<lambda>(args, b1) (arg_name, dep).
                       bindM (calculate_tag_for_image frames b1 dep) (\<lambda>(dep_tag, b2).
                         retM (args @ [arg_pair (arg_name, dep_tag)], b2)))
                       ([], b) dependencies) (\<lambda>(args, b').
                store_tag b' image_name dockerfile_path args))))))"

definition recursion_limit :: nat where
  "recursion_limit = 1000"

fun calculate_each :: "builder \<Rightarrow> string list \<Rightarrow> builder io" where
  "calculate_each b [] = retM b"
| "calculate_each b (n # ns) =
     bindM (calculate_tag_for_image recursion_limit b n) (\<lambda>(_, b'). calculate_each b' ns)"

definition generated_tag :: "builder \<Rightarrow> string \<Rightarrow> exn + string" where
  "generated_tag b name =
     (case map_of (generated_tags b) name of None \<Rightarrow> Inl (KeyError name) | Some tag \<Rightarrow> Inr tag)"

definition calculate_tags :: "builder \<Rightarrow> string list \<Rightarrow> (string list \<times> builder) io" where
  "calculate_tags b target_images =
     bindM (get_build_order b target_images) (\<lambda>images_to_process.
     bindM (calculate_each b images_to_process) (\<lambda>b'.
     bindM (liftM (mapE (generated_tag b') images_to_process)) (\<lambda>tags. retM (tags, b'))))"

definition get_all_docker_image_tags :: "path \<Rightarrow> path list \<Rightarrow> string list \<Rightarrow> string list io" where
  "get_all_docker_image_tags cfg paths target_images =
     bindM (init_builder cfg paths) (\<lambda>b.
     bindM (calculate_tags b target_images) (\<lambda>(tags, _). retM tags))"

section \<open>The build loop\<close>

definition manage_args :: "builder \<Rightarrow> string \<Rightarrow> (string \<times> string) list \<Rightarrow> exn + string list" where
  "manage_args b image_name dependencies =
     bindE (mapE (\<lambda>(arg_name, dep). bindE (generated_tag b dep) (\<lambda>tag. Inr (arg_name, tag))) dependencies)
       (\<lambda>dep_args. Inr (concat (map (\<lambda>(a, v). [a, v]) (dep_args @ extra_args b image_name))))"

text \<open>\<^verbatim>\<open>local_flag or image_conf.get("local", False)\<close>, used as a truth value.\<close>

fun conf_is_local :: "json \<Rightarrow> exn + bool" where
  "conf_is_local (JObj kvs) = Inr (case map_of kvs ''local'' of None \<Rightarrow> False | Some v \<Rightarrow> truthy v)"
| "conf_is_local v = Inl (AttributeError (type_name v @ '' object has no attribute get''))"

definition image_is_local :: "builder \<Rightarrow> bool \<Rightarrow> string \<Rightarrow> exn + bool" where
  "image_is_local b local_flag image_name =
     (case map_of (image_configs_map b) image_name of
        None \<Rightarrow> Inl (KeyError image_name)
      | Some conf \<Rightarrow> (if local_flag then Inr True else conf_is_local conf))"

definition process_image :: "bool \<Rightarrow> bool \<Rightarrow> builder \<Rightarrow> string \<Rightarrow> (string \<times> builder) io" where
  "process_image no_cache local_flag b image_name =
     bindM (calculate_tag_for_image recursion_limit b image_name) (\<lambda>(tag, b').
     bindM (liftM (image_is_local b' local_flag image_name)) (\<lambda>local_image_mode.
     bindM (find_dockerfile (search_paths b') (dockerfile_name image_name)) (\<lambda>found.
     case found of
       None \<Rightarrow>
         bindM (log_error (''Dockerfile '' @ dockerfile_name image_name @ '' not found.'')) (\<lambda>_. sys_exit 1)
     | Some p \<Rightarrow>
         bindM (path_resolve p) (\<lambda>dockerfile_path.
         bindM (liftM (image_deps b' image_name)) (\<lambda>dependencies.
         bindM (liftM (manage_args b' image_name dependencies)) (\<lambda>build_args_for_manage.
         bindM (manage_docker_image tag (str_path dockerfile_path) build_args_for_manage
                  (str_path (parent dockerfile_path)) local_image_mode no_cache (repo b')) (\<lambda>_.
           retM (tag, b'))))))))"

fun build_each ::
  "string option \<Rightarrow> bool \<Rightarrow> bool \<Rightarrow> builder \<Rightarrow> string list \<Rightarrow> builder io" where
  "build_each print_target no_cache local_flag b [] = retM b"
| "build_each print_target no_cache local_flag b (n # ns) =
     bindM (process_image no_cache local_flag b n) (\<lambda>(tag, b').
       if print_target = Some n then bindM (print_out tag) (\<lambda>_. sys_exit 0)
       else build_each print_target no_cache local_flag b' ns)"

definition build_images :: "builder \<Rightarrow> string list \<Rightarrow> bool \<Rightarrow> bool \<Rightarrow> bool \<Rightarrow> builder io" where
  "build_images b target_images print_tag_mode no_cache local_flag =
     bindM (get_build_order b target_images) (\<lambda>images_to_process.
     bindM (if print_tag_mode
            then (case target_images of [] \<Rightarrow> raiseM IndexError | t # _ \<Rightarrow> retM (Some t))
            else retM None) (\<lambda>print_target.
     bindM (build_each print_target no_cache local_flag b images_to_process) (\<lambda>b'.
     bindM (whenM (\<not> print_tag_mode)
              (if target_images \<noteq> []
               then log_info (''Targeted Docker images '' @ join '', '' target_images @
                      '' and dependencies processed successfully.'')
               else log_info ''All Docker images processed successfully.'')) (\<lambda>_.
       retM b'))))"

section \<open>The dependency closure\<close>

definition dep_rel :: "graph \<Rightarrow> (string \<times> string) set" where
  "dep_rel g = {(n, d). \<exists>ps. map_of g n = Some ps \<and> d \<in> set ps}"

lemma set_set_union [simp]: "set (set_union xs ys) = set xs \<union> set ys"
  by (auto simp: set_union_def)

lemma set_remove1_pop:
  assumes "xs \<noteq> []"
  shows "set xs = insert (set_pop order xs) (set (remove1 (set_pop order xs) xs))"
proof (rule set_eqI)
  show "x \<in> set xs \<longleftrightarrow> x \<in> insert (set_pop order xs) (set (remove1 (set_pop order xs) xs))" for x
    using set_pop_in [OF assms, of order] set_remove1_subset [of "set_pop order xs" xs]
    by (cases "x = set_pop order xs") auto
qed

definition visited_closed :: "graph \<Rightarrow> string set \<Rightarrow> string set \<Rightarrow> bool" where
  "visited_closed g todo visited = (\<forall>n \<in> visited. \<forall>d. (n, d) \<in> dep_rel g \<longrightarrow> d \<in> visited \<union> todo)"

lemma closure_step:
  "insert n V \<union> T \<subseteq> S \<Longrightarrow> R \<subseteq> T \<Longrightarrow> V \<union> insert n R \<subseteq> S"
  "S \<subseteq> insert n V \<union> C \<Longrightarrow> C \<subseteq> C' \<Longrightarrow> n \<in> C' \<Longrightarrow> S \<subseteq> V \<union> C'"
  by blast+

lemma visit_dependencies_closed:
  "visited_closed g (set todo) (set visited) \<Longrightarrow> distinct visited \<Longrightarrow>
   set visited \<union> set todo \<subseteq> set (visit_dependencies order g todo visited) \<and>
   set (visit_dependencies order g todo visited) \<subseteq> set visited \<union> (dep_rel g)\<^sup>* `` set todo \<and>
   visited_closed g {} (set (visit_dependencies order g todo visited)) \<and>
   distinct (visit_dependencies order g todo visited)"
proof (induction order g todo visited rule: visit_dependencies.induct)
  case (1 order g todo visited)
  show ?case
  proof (cases "todo = []")
    case True
    then show ?thesis using "1.prems" by (simp add: visit_dependencies.simps)
  next
    case ne: False
    define n where "n = set_pop order todo"
    define rest where "rest = remove1 n todo"
    have todo: "set todo = insert n (set rest)"
      unfolding n_def rest_def by (rule set_remove1_pop [OF ne])
    note IH = "1.IH" [OF ne n_def rest_def]
    consider "n \<in> set visited" | "n \<notin> set visited" "map_of g n = None"
      | deps where "n \<notin> set visited" "map_of g n = Some deps" by (cases "map_of g n") auto
    then show ?thesis
    proof cases
      case 1
      have cl: "visited_closed g (set rest) (set visited)"
        using "1.prems"(1) 1 by (auto simp: visited_closed_def todo)
      have eq: "visit_dependencies order g todo visited = visit_dependencies order g rest visited"
        using 1 ne by (subst visit_dependencies.simps) (simp add: Let_def n_def rest_def)
      show ?thesis unfolding eq using IH(1) [OF 1 cl "1.prems"(2)] 1 by (auto simp: todo)
    next
      case 2
      have nd: "(n, d) \<notin> dep_rel g" for d using 2 by (simp add: dep_rel_def)
      have cl: "visited_closed g (set rest) (set (visited @ [n]))"
        using "1.prems"(1) nd by (auto simp: visited_closed_def todo)
      have eq: "visit_dependencies order g todo visited = visit_dependencies order g rest (visited @ [n])"
        using 2 ne by (subst visit_dependencies.simps) (simp add: Let_def n_def rest_def)
      have d: "distinct (visited @ [n])" using "1.prems"(2) 2 by simp
      show ?thesis unfolding eq using IH(2) [OF 2 cl d] by (auto simp: todo)
    next
      case 3
      have nd: "(n, d) \<in> dep_rel g \<longleftrightarrow> d \<in> set deps" for d using 3 by (simp add: dep_rel_def)
      have cl: "visited_closed g (set (set_union rest deps)) (set (visited @ [n]))"
        using "1.prems"(1) nd by (auto simp: visited_closed_def todo)
      have eq: "visit_dependencies order g todo visited =
          visit_dependencies order g (set_union rest deps) (visited @ [n])"
        using 3 ne by (subst visit_dependencies.simps) (simp add: Let_def n_def rest_def)
      have d: "distinct (visited @ [n])" using "1.prems"(2) 3 by simp
      have reach: "(dep_rel g)\<^sup>* `` set (set_union rest deps) \<subseteq> (dep_rel g)\<^sup>* `` set todo"
        using nd converse_rtrancl_into_rtrancl by (fastforce simp: todo)
      have self: "n \<in> (dep_rel g)\<^sup>* `` set todo" by (auto simp: todo)
      have new: "set (visited @ [n]) = insert n (set visited)" by simp
      note ih = IH(3) [OF 3 cl d, unfolded new]
      have "set visited \<union> set todo \<subseteq> set (visit_dependencies order g (set_union rest deps) (visited @ [n]))"
        unfolding todo by (rule closure_step(1) [OF ih [THEN conjunct1]]) simp
      moreover have "set (visit_dependencies order g (set_union rest deps) (visited @ [n])) \<subseteq>
          set visited \<union> (dep_rel g)\<^sup>* `` set todo"
        by (rule closure_step(2) [OF ih [THEN conjunct2, THEN conjunct1] reach self])
      ultimately show ?thesis unfolding eq using ih [THEN conjunct2, THEN conjunct2] by simp
    qed
  qed
qed

lemma visit_dependencies_reachable:
  "set (visit_dependencies order g todo []) = (dep_rel g)\<^sup>* `` set todo"
  "distinct (visit_dependencies order g todo [])"
proof -
  let ?res = "visit_dependencies order g todo []"
  have *: "set todo \<subseteq> set ?res \<and> set ?res \<subseteq> (dep_rel g)\<^sup>* `` set todo \<and>
      visited_closed g {} (set ?res) \<and> distinct ?res"
    using visit_dependencies_closed [of g todo "[]" order] by (simp add: visited_closed_def)
  have "d \<in> set ?res" if "(n, d) \<in> (dep_rel g)\<^sup>*" "n \<in> set todo" for n d
    using that by (induction rule: rtrancl_induct) (use * in \<open>auto simp: visited_closed_def\<close>)
  with * show "set ?res = (dep_rel g)\<^sup>* `` set todo" "distinct ?res" by auto
qed

section \<open>The build order\<close>

lemma g_nodes_iff:
  "n \<in> g_nodes g \<longleftrightarrow> (\<exists>ps. (n, ps) \<in> set g) \<or> (\<exists>k ps. (k, ps) \<in> set g \<and> n \<in> set ps)"
  by (force simp: g_nodes_def)

text \<open>What Python promises of a set: iterating over it gives every element once.\<close>

definition hash_order :: "(string list \<Rightarrow> string list) \<Rightarrow> bool" where
  "hash_order order = (\<forall>xs. distinct xs \<longrightarrow> distinct (order xs) \<and> set (order xs) = set xs)"

lemma hash_order_id: "hash_order (\<lambda>xs. xs)"
  by (simp add: hash_order_def)

lemma mapE_keys: "mapE (\<lambda>(k, v). bindE (f v) (\<lambda>y. Inr (k, h y))) kvs = Inr r \<Longrightarrow> dict_keys r = dict_keys kvs"
proof (induction kvs arbitrary: r)
  case (Cons e kvs)
  then show ?case by (cases e) (auto simp: bindE_Inr)
qed simp

lemma dependency_graph_keys: "dependency_graph configs = Inr g \<Longrightarrow> dict_keys g = dict_keys configs"
  unfolding dependency_graph_def by (rule mapE_keys)

lemma dependency_graph_entries:
  "dependency_graph configs = Inr g \<Longrightarrow>
   list_all2 (\<lambda>(n, conf) (n', ps). n' = n \<and> (\<exists>deps. deps_of conf = Inr deps \<and> ps = remdups (map snd deps)))
     configs g"
  unfolding dependency_graph_def mapE_Inr
  by (erule list_all2_mono) (auto simp: bindE_Inr split: prod.splits)

lemma dependency_graph_wf:
  assumes "dependency_graph configs = Inr g" "dict_wf configs"
  shows "graph_wf g"
proof -
  have "distinct ps" if "(n, ps) \<in> set g" for n ps
    using dependency_graph_entries [OF assms(1)] that
    by (fastforce simp: list_all2_conv_all_nth in_set_conv_nth)
  then show ?thesis using dependency_graph_keys [OF assms(1)] assms(2) by (auto simp: graph_wf_def)
qed

text \<open>The iteration orders do not change the graph.\<close>

lemma sorter_graph_simps:
  assumes "hash_order order" "graph_wf g"
  shows "graph_wf (sorter_graph order g)" "preds (sorter_graph order g) = preds g"
    "g_nodes (sorter_graph order g) = g_nodes g" "g_edges (sorter_graph order g) = g_edges g"
proof -
  have ps: "distinct (order ps) \<and> set (order ps) = set ps" if "(n, ps) \<in> set g" for n ps
    using assms that by (auto simp: hash_order_def graph_wf_def)
  have keys: "dict_keys (sorter_graph order g) = dict_keys g"
    by (simp add: sorter_graph_def split_def)
  have "\<forall>(n, qs) \<in> set (sorter_graph order g). distinct qs"
    using ps by (auto simp: sorter_graph_def)
  then show wf: "graph_wf (sorter_graph order g)"
    using assms(2) by (simp add: graph_wf_def keys)
  have "m \<in> preds (sorter_graph order g) n \<longleftrightarrow> m \<in> preds g n" for m n
    unfolding preds_iff [OF wf] preds_iff [OF assms(2)]
    using ps by (force simp: sorter_graph_def)
  then show preds: "preds (sorter_graph order g) = preds g" by blast
  then show "g_edges (sorter_graph order g) = g_edges g" by (simp add: g_edges_def)
  show "g_nodes (sorter_graph order g) = g_nodes g"
    unfolding g_nodes_def using keys ps by (force simp: sorter_graph_def)
qed

lemma dep_rel_preds: "(n, d) \<in> dep_rel g \<longleftrightarrow> d \<in> preds g n"
  by (simp add: dep_rel_def preds_def split: option.splits)

definition reachable :: "graph \<Rightarrow> string list \<Rightarrow> string set" where
  "reachable g targets = (dep_rel g)\<^sup>* `` set targets"

lemma dependency_subgraph_simps:
  assumes "hash_order order" "graph_wf g" "set targets \<subseteq> set (dict_keys g)"
  shows "graph_wf (dependency_subgraph order g targets)"
    and "preds (dependency_subgraph order g targets) n = (if n \<in> reachable g targets then preds g n else {})"
    and "g_nodes (dependency_subgraph order g targets) = reachable g targets"
proof -
  define vs where "vs = visit_dependencies order g (remdups targets) []"
  have vs: "set vs = reachable g targets" "distinct vs"
    unfolding vs_def reachable_def by (simp_all add: visit_dependencies_reachable)
  have order: "distinct (order vs)" "set (order vs) = reachable g targets"
    using assms(1) vs by (simp_all add: hash_order_def)
  have sub: "dependency_subgraph order g targets =
      map (\<lambda>n. (n, the (map_of g n))) (filter (\<lambda>n. n \<in> set (dict_keys g)) (order vs))"
    by (simp add: dependency_subgraph_def vs_def)
  have entry: "(n, ps) \<in> set (dependency_subgraph order g targets) \<longleftrightarrow>
      n \<in> reachable g targets \<and> map_of g n = Some ps" for n ps
  proof (cases "map_of g n")
    case None
    then have "n \<notin> set (dict_keys g)" by (simp add: map_of_eq_None_iff)
    then show ?thesis using None by (auto simp: sub)
  next
    case (Some qs)
    then have "n \<in> set (dict_keys g)" by (metis map_of_eq_None_iff option.distinct(1) image_set)
    then show ?thesis using Some order(2) by (auto simp: sub image_iff)
  qed
  have "dict_keys (dependency_subgraph order g targets) = filter (\<lambda>n. n \<in> set (dict_keys g)) (order vs)"
    by (simp add: sub comp_def)
  then show wf: "graph_wf (dependency_subgraph order g targets)"
    using order(1) assms(2) entry by (auto simp: graph_wf_def dest!: map_of_SomeD)
  show preds: "preds (dependency_subgraph order g targets) n = (if n \<in> reachable g targets then preds g n else {})" for n
    using preds_iff [OF wf] entry by (auto simp: preds_def [of g] split: option.splits)
  have step: "d \<in> reachable g targets" if "n \<in> reachable g targets" "d \<in> preds g n" for n d
    using that by (auto simp: reachable_def dep_rel_preds [symmetric] intro: rtrancl_into_rtrancl)
  have origin: "n \<in> set targets \<or> (\<exists>m \<in> reachable g targets. n \<in> preds g m)"
    if reach: "n \<in> reachable g targets" for n
  proof -
    obtain t where t: "t \<in> set targets" "(t, n) \<in> (dep_rel g)\<^sup>*" using reach by (auto simp: reachable_def)
    from t(2) show ?thesis using t(1) by (cases rule: rtranclE) (auto simp: reachable_def dep_rel_preds)
  qed
  have node: "n \<in> g_nodes (dependency_subgraph order g targets) \<longleftrightarrow>
      (n \<in> reachable g targets \<and> map_of g n \<noteq> None) \<or> (\<exists>m \<in> reachable g targets. n \<in> preds g m)" for n
    unfolding g_nodes_iff entry by (auto simp: preds_def split: option.splits)
  have "map_of g n \<noteq> None" if "n \<in> set targets" for n
    using that assms(3) by (auto simp: map_of_eq_None_iff)
  then show "g_nodes (dependency_subgraph order g targets) = reachable g targets"
    using node step origin by blast
qed

definition deps_first :: "graph \<Rightarrow> string list \<Rightarrow> bool" where
  "deps_first g ns = (\<forall>xs n ys. ns = xs @ n # ys \<longrightarrow> preds g n \<subseteq> set xs)"

lemma static_order_cases:
  assumes "graph_wf g"
  shows "(\<exists>ns. static_order (ts_init g) = Inr ns \<and> acyclic (g_edges g) \<and> distinct ns \<and>
            set ns = g_nodes g \<and> deps_first g ns) \<or>
         (static_order (ts_init g) = Inl CycleError \<and> \<not> acyclic (g_edges g))"
proof (cases "static_order (ts_init g)")
  case (Inl e)
  then show ?thesis using static_order_complete [OF assms] static_order_error by auto
next
  case (Inr ns)
  note topo = static_order_sound [OF assms Inr]
  then show ?thesis
    using Inr topological_acyclic [OF topo assms] by (simp add: topological_def deps_first_def)
qed

definition closure_edges :: "graph \<Rightarrow> string list \<Rightarrow> (string \<times> string) set" where
  "closure_edges g targets = {(m, n). n \<in> reachable g targets \<and> m \<in> preds g n}"

lemma deps_first_subgraph:
  assumes "set ns \<subseteq> reachable g targets"
    and "\<And>n. preds g' n = (if n \<in> reachable g targets then preds g n else {})"
  shows "deps_first g' ns = deps_first g ns"
  using assms by (fastforce simp: deps_first_def)

lemma dependency_subgraph_cases:
  assumes "hash_order (w_order w)" "dict_wf configs" "dependency_graph configs = Inr g"
    and "set targets \<subseteq> set (dict_keys configs)"
  shows "if acyclic (closure_edges g targets)
         then (\<exists>ns. get_dependency_subgraph targets configs w = (Inr ns, w) \<and> distinct ns \<and>
                 set ns = reachable g targets \<and> deps_first g ns)
         else fst (get_dependency_subgraph targets configs w) = Inl (SystemExit 1)"
proof -
  let ?sub = "dependency_subgraph (w_order w) g targets"
  let ?sorted = "sorter_graph (w_order w) ?sub"
  note wf = dependency_graph_wf [OF assms(3,2)]
  have keys: "set targets \<subseteq> set (dict_keys g)" using assms(4) dependency_graph_keys [OF assms(3)] by simp
  note sub = dependency_subgraph_simps [OF assms(1) wf keys]
  note sorted = sorter_graph_simps [OF assms(1) sub(1)]
  have edges: "g_edges ?sorted = closure_edges g targets"
    unfolding sorted(4) by (auto simp: g_edges_def closure_edges_def sub(2) split: if_splits)
  have first: "deps_first ?sorted ns = deps_first g ns" if "set ns = reachable g targets" for ns
    by (rule deps_first_subgraph [of ns g targets]) (simp_all add: that sorted(2) sub(2))
  show ?thesis
    using static_order_cases [OF sorted(1)]
    by (auto simp: edges sorted(3) sub(3) first get_dependency_subgraph_def bindM_run assms(3))
qed

lemma build_order_all_cases:
  assumes "hash_order (w_order w)" "dict_wf configs" "dependency_graph configs = Inr g"
  shows "if acyclic (g_edges g)
         then (\<exists>ns w'. build_order_all configs w = (Inr ns, w') \<and> distinct ns \<and>
                 set ns = g_nodes g \<and> deps_first g ns)
         else fst (build_order_all configs w) = Inl (SystemExit 1)"
proof -
  note wf = dependency_graph_wf [OF assms(3,2)]
  note sorted = sorter_graph_simps [OF assms(1) wf]
  have first: "deps_first (sorter_graph (w_order w) g) ns = deps_first g ns" for ns
    by (simp add: deps_first_def sorted(2))
  show ?thesis
    using static_order_cases [OF sorted(1)]
    by (auto simp: sorted(3,4) first build_order_all_def bindM_run assms(3))
qed

definition order_nodes :: "graph \<Rightarrow> string list \<Rightarrow> string set" where
  "order_nodes g targets = (if targets = [] then g_nodes g else reachable g targets)"

definition order_edges :: "graph \<Rightarrow> string list \<Rightarrow> (string \<times> string) set" where
  "order_edges g targets = (if targets = [] then g_edges g else closure_edges g targets)"

lemma build_order_cases:
  assumes "hash_order (w_order w)" "dict_wf (image_configs_map b)"
    and "dependency_graph (image_configs_map b) = Inr g"
    and "set targets \<subseteq> set (dict_keys (image_configs_map b))"
  shows "if acyclic (order_edges g targets)
         then (\<exists>ns w'. get_build_order b targets w = (Inr ns, w') \<and> distinct ns \<and>
                 set ns = order_nodes g targets \<and> deps_first g ns)
         else fst (get_build_order b targets w) = Inl (SystemExit 1)"
proof (cases "targets = []")
  case True
  then show ?thesis
    using build_order_all_cases [OF assms(1-3)]
    by (cases "acyclic (g_edges g)") (auto simp: get_build_order_def order_nodes_def order_edges_def)
next
  case False
  note sub = dependency_subgraph_cases [OF assms]
  show ?thesis
  proof (cases "acyclic (closure_edges g targets)")
    case True
    then obtain ns where "get_dependency_subgraph targets (image_configs_map b) w = (Inr ns, w)"
      "distinct ns" "set ns = reachable g targets" "deps_first g ns" using sub by auto
    then show ?thesis using True False
      by (simp add: get_build_order_def order_nodes_def order_edges_def bindM_run)
  next
    case cyclic: False
    then obtain w' where "get_dependency_subgraph targets (image_configs_map b) w = (Inl (SystemExit 1), w')"
      using sub by (metis prod.collapse)
    then show ?thesis using cyclic False
      by (simp add: get_build_order_def order_edges_def bindM_run)
  qed
qed

text \<open>
  C6. The build order: when the images to process (all of them, or those reachable from the
  targets) have no cycle among their dependencies, the result lists exactly these images, each once
  and after all of its dependencies; when they have one, the script ends with exit status 1.  The
  iteration order of Python's sets does not matter.
\<close>

theorem get_build_order_correct:
  assumes "hash_order (w_order w)" "dict_wf (image_configs_map b)"
    and "dependency_graph (image_configs_map b) = Inr g"
    and "set targets \<subseteq> set (dict_keys (image_configs_map b))"
  shows "if acyclic (order_edges g targets)
         then (\<exists>ns w'. get_build_order b targets w = (Inr ns, w') \<and> distinct ns \<and>
                 set ns = order_nodes g targets \<and> deps_first g ns)
         else fst (get_build_order b targets w) = Inl (SystemExit 1)"
  by (rule build_order_cases [OF assms])

definition sample_image :: "(string \<times> string) list \<Rightarrow> json" where
  "sample_image deps = JObj [(''deps'', JObj (map (\<lambda>(k, v). (k, JStr v)) deps))]"

definition sample_configs :: "json dict" where
  "sample_configs = [(''app'', sample_image [(''BASE'', ''base''), (''TOOL'', ''tool'')]),
     (''base'', sample_image []), (''other'', sample_image []), (''tool'', sample_image [(''BASE'', ''base'')])]"

definition sample_graph :: graph where
  "sample_graph = [(''app'', [''base'', ''tool'']), (''base'', []), (''other'', []), (''tool'', [''base''])]"

lemma sample_configs_graph:
  "dependency_graph sample_configs = Inr sample_graph" "dict_wf sample_configs"
  "fst ` set sample_configs = {''app'', ''base'', ''other'', ''tool''}"
  by (simp_all add: dependency_graph_def sample_configs_def sample_image_def deps_of_def sample_graph_def)

definition sample_builder :: builder where
  "sample_builder =
     (new_builder (path_of ''/devkit.json'') [path_of ''/images''])\<lparr>image_configs_map := sample_configs\<rparr>"

theorem get_build_order_correct_witness:
  "fst (get_build_order sample_builder [''app''] sample_world) = Inr [''base'', ''tool'', ''app''] \<and>
   set [''base'', ''tool'', ''app''] = order_nodes sample_graph [''app''] \<and>
   deps_first sample_graph [''base'', ''tool'', ''app'']"
proof -
  have order: "w_order sample_world = (\<lambda>xs. xs)" by (simp add: sample_world_def)
  have configs: "image_configs_map sample_builder = sample_configs" by (simp add: sample_builder_def)
  have "static_order (ts_init (sorter_graph (\<lambda>xs. xs) (dependency_subgraph (\<lambda>xs. xs) sample_graph [''app'']))) =
      Inr [''base'', ''tool'', ''app'']"
    by code_simp
  then have run: "fst (get_build_order sample_builder [''app''] sample_world) = Inr [''base'', ''tool'', ''app'']"
    by (simp add: get_build_order_def get_dependency_subgraph_def bindM_run sample_configs_graph order configs)
  have main: "if acyclic (order_edges sample_graph [''app''])
      then (\<exists>ns w'. get_build_order sample_builder [''app''] sample_world = (Inr ns, w') \<and> distinct ns \<and>
              set ns = order_nodes sample_graph [''app''] \<and> deps_first sample_graph ns)
      else fst (get_build_order sample_builder [''app''] sample_world) = Inl (SystemExit 1)"
    by (rule get_build_order_correct) (simp_all add: order configs sample_configs_graph hash_order_id)
  show ?thesis
  proof (cases "acyclic (order_edges sample_graph [''app''])")
    case True
    then obtain ns w' where "get_build_order sample_builder [''app''] sample_world = (Inr ns, w')"
      "set ns = order_nodes sample_graph [''app'']" "deps_first sample_graph ns" using main by auto
    then show ?thesis using run by simp
  next
    case False
    then show ?thesis using main run by simp
  qed
qed

end
