(* ===== verification/DockerTags.thy ===== *)
theory DockerTags
  imports DockerBuild
begin

text \<open>
  The tags that \<^verbatim>\<open>DockerBuilder\<close> computes (\<^verbatim>\<open>src/.devkit/scripts/docker/build.py\<close>, lines 398 to
  458).  \<open>tags_ok\<close> is the specification: the tag of an image is the content address of its
  Dockerfile, the tags of its dependencies and its configured arguments.  Shown: every computed tag
  satisfies it, a tag that has been computed never changes, the specification determines the tags,
  and an image order in which dependencies come first never reaches the recursion limit.
\<close>

section \<open>Actions that leave the files alone\<close>

definition same_files :: "world \<Rightarrow> world \<Rightarrow> bool" where
  "same_files w w' = (w_fs w' = w_fs w \<and> same_setting w w')"

interpretation files: frame same_files
  by unfold_locales (auto simp: same_files_def same_setting_def)

lemma files_keeps_emit: "files.keeps (emit ev)"
  by (simp add: files.keeps_def same_files_def same_setting_def)

lemmas files_keeps = files.keeps_intros files_keeps_emit

lemma files_keeps_find_dockerfile: "files.keeps (find_dockerfile ps name)"
proof (induction ps)
  case (Cons p ps)
  show ?case unfolding find_dockerfile.simps Let_def by (intro files_keeps Cons.IH)
qed (unfold find_dockerfile.simps, rule files.keeps_retM)

lemma files_keeps_store_tag: "files.keeps (store_tag b n p args)"
  unfolding store_tag_def calculate_sha256_def Let_def by (intro files_keeps)

lemma files_keeps_calculate_tag: "files.keeps (calculate_tag_for_image k b n)"
proof (induction k arbitrary: b n)
  case (Suc k)
  show ?case
    unfolding calculate_tag_for_image.simps
    by (intro files_keeps files_keeps_find_dockerfile files_keeps_store_tag Suc.IH)
qed (unfold calculate_tag_for_image.simps, rule files.keeps_raiseM)

text \<open>The bytes of an image's Dockerfile, as a function of the world.\<close>

definition image_source :: "path list \<Rightarrow> string \<Rightarrow> string io" where
  "image_source paths n =
     bindM (find_dockerfile paths (dockerfile_name n)) (\<lambda>found.
       case found of
         None \<Rightarrow> sys_exit 1
       | Some p \<Rightarrow> bindM (path_resolve p) read_bytes)"

lemma same_files_comps: "same_files w w' \<Longrightarrow> comps w' p = comps w p"
  by (simp add: comps_def same_files_def same_setting_def)

lemma find_dockerfile_reads:
  "same_files w w' \<Longrightarrow> fst (find_dockerfile ps name w') = fst (find_dockerfile ps name w) \<and>
     snd (find_dockerfile ps name w) = w"
  by (induction ps)
    (simp_all add: Let_def bindM_run path_exists_def same_files_comps, simp add: same_files_def)

lemma path_resolve_reads:
  "same_files w w' \<Longrightarrow> fst (path_resolve p w') = fst (path_resolve p w) \<and> snd (path_resolve p w) = w"
  using same_files_comps [of w w' p]
  by (simp add: path_resolve_def same_files_def split: sum.splits)

lemma read_bytes_reads:
  "same_files w w' \<Longrightarrow> fst (read_bytes p w') = fst (read_bytes p w) \<and> snd (read_bytes p w) = w"
  using same_files_comps [of w w' p]
  by (simp add: read_bytes_def same_files_def split: sum.splits node.splits)

lemma find_dockerfile_same: "snd (find_dockerfile ps name w) = w"
  and path_resolve_same: "snd (path_resolve p w) = w"
  and read_bytes_same: "snd (read_bytes p w) = w"
  using find_dockerfile_reads [of w w] path_resolve_reads [of w w] read_bytes_reads [of w w]
  by (simp_all add: files.refl)

section \<open>The specification of the tags\<close>

definition dep_arg :: "builder \<Rightarrow> string \<times> string \<Rightarrow> exn + string" where
  "dep_arg b ad = bindE (generated_tag b (snd ad)) (\<lambda>tag. Inr (arg_pair (fst ad, tag)))"

definition content_tag :: "builder \<Rightarrow> string \<Rightarrow> string \<Rightarrow> string list \<Rightarrow> string" where
  "content_tag b n content dep_args =
     get_image_tag b n (hexdigest (content @ concat (sort (dep_args @ map arg_pair (extra_args b n)))))"

definition tag_ok :: "world \<Rightarrow> builder \<Rightarrow> string \<Rightarrow> string \<Rightarrow> bool" where
  "tag_ok w b n tag =
     (\<exists>deps content args. image_deps b n = Inr deps \<and> fst (image_source (search_paths b) n w) = Inr content \<and>
        mapE (dep_arg b) deps = Inr args \<and> tag = content_tag b n content args)"

definition tags_ok :: "world \<Rightarrow> builder \<Rightarrow> bool" where
  "tags_ok w b = (\<forall>n tag. map_of (generated_tags b) n = Some tag \<longrightarrow> tag_ok w b n tag)"

text \<open>A builder that has computed more tags.\<close>

definition extends :: "builder \<Rightarrow> builder \<Rightarrow> bool" where
  "extends b b' =
     (\<exists>tags. b' = b\<lparr>generated_tags := tags\<rparr> \<and> map_of (generated_tags b) \<subseteq>\<^sub>m map_of tags)"

lemma extends_refl [simp]: "extends b b"
  unfolding extends_def by (rule exI [of _ "generated_tags b"]) simp

lemma extends_trans: "extends b b' \<Longrightarrow> extends b' b'' \<Longrightarrow> extends b b''"
proof -
  assume "extends b b'" "extends b' b''"
  then obtain t t' where "b' = b\<lparr>generated_tags := t\<rparr>" "map_of (generated_tags b) \<subseteq>\<^sub>m map_of t"
    "b'' = b\<lparr>generated_tags := t'\<rparr>" "map_of t \<subseteq>\<^sub>m map_of t'" by (auto simp: extends_def)
  then show "extends b b''" unfolding extends_def using map_le_trans by blast
qed

lemma extends_fields:
  assumes "extends b b'"
  shows "image_configs_map b' = image_configs_map b" "search_paths b' = search_paths b"
    "extra_args b' = extra_args b" "get_image_tag b' = get_image_tag b"
    "map_of (generated_tags b) n = Some t \<Longrightarrow> map_of (generated_tags b') n = Some t"
proof -
  obtain tags where b': "b' = b\<lparr>generated_tags := tags\<rparr>" "map_of (generated_tags b) \<subseteq>\<^sub>m map_of tags"
    using assms by (auto simp: extends_def)
  show "image_configs_map b' = image_configs_map b" "search_paths b' = search_paths b"
    "extra_args b' = extra_args b" "get_image_tag b' = get_image_tag b"
    by (simp_all add: b' extra_args_def get_image_tag_def fun_eq_iff Let_def)
  show "map_of (generated_tags b) n = Some t \<Longrightarrow> map_of (generated_tags b') n = Some t"
    using b'(2) by (simp add: b'(1) map_le_def dom_def)
qed

lemma extends_image_deps: "extends b b' \<Longrightarrow> image_deps b' n = image_deps b n"
  by (simp add: image_deps_def extends_fields(1))

lemma extends_content_tag: "extends b b' \<Longrightarrow> content_tag b' n c args = content_tag b n c args"
  by (simp add: content_tag_def extends_fields(3,4))

lemma extends_dep_arg: "extends b b' \<Longrightarrow> dep_arg b ad = Inr arg \<Longrightarrow> dep_arg b' ad = Inr arg"
  by (auto simp: dep_arg_def generated_tag_def bindE_Inr extends_fields(5) split: option.splits)

lemma extends_dep_args: "extends b b' \<Longrightarrow> mapE (dep_arg b) deps = Inr args \<Longrightarrow> mapE (dep_arg b') deps = Inr args"
  unfolding mapE_Inr by (erule list_all2_mono) (rule extends_dep_arg)

lemma image_source_reads:
  assumes "same_files w w'"
  shows "fst (image_source ps n w') = fst (image_source ps n w)"
proof -
  obtain r where r: "find_dockerfile ps (dockerfile_name n) w = (r, w)"
    "find_dockerfile ps (dockerfile_name n) w' = (r, w')"
    using find_dockerfile_reads [OF assms, of ps "dockerfile_name n"]
      find_dockerfile_same [of ps "dockerfile_name n" w'] by (metis prod.collapse)
  have step: "fst (bindM (path_resolve p) read_bytes w') = fst (bindM (path_resolve p) read_bytes w)" for p
  proof -
    obtain q where q: "path_resolve p w = (q, w)" "path_resolve p w' = (q, w')"
      using path_resolve_reads [OF assms, of p] path_resolve_same [of p w'] by (metis prod.collapse)
    show ?thesis using read_bytes_reads [OF assms] by (cases q) (simp_all add: bindM_run q)
  qed
  show ?thesis
  proof (cases r)
    case (Inr found)
    then show ?thesis
      unfolding image_source_def bindM_run [of "find_dockerfile ps (dockerfile_name n)"] r
      using step by (cases found) simp_all
  qed (simp add: image_source_def bindM_run r)
qed

lemma tag_ok_mono: "tag_ok w b n tag \<Longrightarrow> extends b b' \<Longrightarrow> same_files w w' \<Longrightarrow> tag_ok w' b' n tag"
proof -
  assume "tag_ok w b n tag" and ext: "extends b b'" and files: "same_files w w'"
  then obtain deps content args where "image_deps b n = Inr deps"
    "fst (image_source (search_paths b) n w) = Inr content" "mapE (dep_arg b) deps = Inr args"
    "tag = content_tag b n content args" by (auto simp: tag_ok_def)
  then show "tag_ok w' b' n tag"
    using extends_dep_args [OF ext] unfolding tag_ok_def
    by (simp add: extends_image_deps [OF ext] extends_fields(2) [OF ext] extends_content_tag [OF ext]
        image_source_reads [OF files])
qed

text \<open>A tag that is stored satisfies the specification, also where one was stored before.\<close>

lemma store_tag_extends:
  assumes ok: "tags_ok w b" and deps: "image_deps b n = Inr deps" "mapE (dep_arg b) deps = Inr args"
    and src: "fst (image_source (search_paths b) n w) = Inr content"
    and b': "b' = b\<lparr>generated_tags := dict_set (generated_tags b) n (content_tag b n content args)\<rparr>"
    and files: "same_files w w'"
  shows "extends b b'" "tags_ok w' b'"
proof -
  have old: "t = content_tag b n content args" if t: "map_of (generated_tags b) n = Some t" for t
  proof -
    have "tag_ok w b n t" using ok t by (simp add: tags_ok_def)
    then show ?thesis using deps src by (auto simp: tag_ok_def)
  qed
  show ext: "extends b b'"
    unfolding extends_def b'
    by (rule exI [of _ "dict_set (generated_tags b) n (content_tag b n content args)"])
      (use old in \<open>auto simp: map_le_def\<close>)
  have "tag_ok w b n (content_tag b n content args)"
    unfolding tag_ok_def using deps src by blast
  then have "tag_ok w b m t" if "map_of (generated_tags b') m = Some t" for m t
    using that ok by (auto simp: b' tags_ok_def split: if_splits)
  then show "tags_ok w' b'" using tag_ok_mono [OF _ ext files] by (simp add: tags_ok_def)
qed

section \<open>The computation meets the specification\<close>

definition dep_step ::
  "nat \<Rightarrow> string list \<times> builder \<Rightarrow> string \<times> string \<Rightarrow> (string list \<times> builder) io" where
  "dep_step k = (\<lambda>(args, b1) (arg_name, dep).
     bindM (calculate_tag_for_image k b1 dep) (\<lambda>(dep_tag, b2).
       retM (args @ [arg_pair (arg_name, dep_tag)], b2)))"

lemma files_keeps_dep_steps: "files.keeps (foldM (dep_step k) s deps)"
  unfolding dep_step_def by (intro files_keeps files_keeps_calculate_tag)

text \<open>What a successful call that finds no stored tag has done.\<close>

lemma calculate_tag_new:
  assumes "calculate_tag_for_image (Suc k) b n w = (Inr (tag, b'), w')" "map_of (generated_tags b) n = None"
  obtains deps p q args b1 w0 w1 content where
    "image_deps b n = Inr deps" "find_dockerfile (search_paths b) (dockerfile_name n) w0 = (Inr (Some p), w0)"
    "path_resolve p w0 = (Inr q, w0)" "foldM (dep_step k) ([], b) deps w0 = (Inr (args, b1), w1)"
    "read_bytes q w1 = (Inr content, w1)" "same_files w w0" "same_files w1 w'"
    "tag = content_tag b1 n content args" "b' = b1\<lparr>generated_tags := dict_set (generated_tags b1) n tag\<rparr>"
proof -
  define w0 where "w0 = snd (log_info (''=== Calculating tag for: '' @ n @ '' ==='') w)"
  have w0: "log_info (''=== Calculating tag for: '' @ n @ '' ==='') w = (Inr (), w0)"
    by (simp add: w0_def)
  from assms obtain deps p q args b1 w1 w2 w3 where d: "image_deps b n = Inr deps"
    "find_dockerfile (search_paths b) (dockerfile_name n) w0 = (Inr (Some p), w2)"
    and p: "path_resolve p w2 = (Inr q, w3)" "foldM (dep_step k) ([], b) deps w3 = (Inr (args, b1), w1)"
      "store_tag b1 n q args w1 = (Inr (tag, b'), w')"
    by (auto simp: bindM_Inr w0_def dep_step_def split: option.splits)
  have w2: "w2 = w0" using d(2) find_dockerfile_same by (metis snd_conv)
  have w3: "w3 = w2" using p(1) path_resolve_same by (metis snd_conv)
  from p(3) obtain content w4 where s: "read_bytes q w1 = (Inr content, w4)"
    "tag = content_tag b1 n content args" "b' = b1\<lparr>generated_tags := dict_set (generated_tags b1) n tag\<rparr>"
    by (auto simp: store_tag_def calculate_sha256_def bindM_Inr Let_def content_tag_def)
  have w4: "w4 = w1" using s(1) read_bytes_same by (metis snd_conv)
  have "same_files w w0" by (rule files.keepsD [OF files_keeps_emit w0])
  moreover have "same_files w1 w'" by (rule files.keepsD [OF files_keeps_store_tag p(3)])
  ultimately show thesis using that d p s w2 w3 w4 by blast
qed

lemma dep_steps_ok:
  assumes IH: "\<And>b d w tag b' w'. tags_ok w b \<Longrightarrow> calculate_tag_for_image k b d w = (Inr (tag, b'), w') \<Longrightarrow>
      tags_ok w' b' \<and> extends b b' \<and> map_of (generated_tags b') d = Some tag"
    and "tags_ok w b" "foldM (dep_step k) (args, b) deps w = (Inr (args', b'), w')"
  shows "tags_ok w' b' \<and> extends b b' \<and> (\<exists>new. args' = args @ new \<and> mapE (dep_arg b') deps = Inr new)"
  using assms(2,3)
proof (induction deps arbitrary: args b w)
  case Nil
  then show ?case by simp
next
  case (Cons ad deps)
  obtain a d where ad: "ad = (a, d)" by fastforce
  from Cons.prems(2) obtain t b1 w1 where c: "calculate_tag_for_image k b d w = (Inr (t, b1), w1)"
    "foldM (dep_step k) (args @ [arg_pair (a, t)], b1) deps w1 = (Inr (args', b'), w')"
    by (auto simp: ad dep_step_def bindM_Inr)
  note first = IH [OF Cons.prems(1) c(1)]
  obtain new where rest: "tags_ok w' b'" "extends b1 b'" "args' = (args @ [arg_pair (a, t)]) @ new"
    "mapE (dep_arg b') deps = Inr new"
    using Cons.IH [OF _ c(2)] first by blast
  have "dep_arg b' ad = Inr (arg_pair (a, t))"
    using first extends_fields(5) [OF rest(2)] by (simp add: dep_arg_def generated_tag_def ad)
  then show ?case using rest first extends_trans by auto
qed

lemma calculate_tag_ok:
  "tags_ok w b \<Longrightarrow> calculate_tag_for_image k b n w = (Inr (tag, b'), w') \<Longrightarrow>
   tags_ok w' b' \<and> extends b b' \<and> map_of (generated_tags b') n = Some tag"
proof (induction k arbitrary: b n w tag b' w')
  case (Suc k)
  show ?case
  proof (cases "map_of (generated_tags b) n")
    case (Some t)
    then show ?thesis using Suc.prems by simp
  next
    case None
    obtain deps p q args b1 w0 w1 content where
      c: "image_deps b n = Inr deps" "find_dockerfile (search_paths b) (dockerfile_name n) w0 = (Inr (Some p), w0)"
      "path_resolve p w0 = (Inr q, w0)" "foldM (dep_step k) ([], b) deps w0 = (Inr (args, b1), w1)"
      "read_bytes q w1 = (Inr content, w1)" "same_files w w0" "same_files w1 w'"
      "tag = content_tag b1 n content args" "b' = b1\<lparr>generated_tags := dict_set (generated_tags b1) n tag\<rparr>"
      using calculate_tag_new [OF Suc.prems(2) None] .
    have ok0: "tags_ok w0 b"
      using Suc.prems(1) tag_ok_mono [OF _ extends_refl c(6)] by (simp add: tags_ok_def)
    have f1: "same_files w0 w1" by (rule files.keepsD [OF files_keeps_dep_steps c(4)])
    have deps: "tags_ok w1 b1" "extends b b1" "mapE (dep_arg b1) deps = Inr args"
      using dep_steps_ok [OF Suc.IH ok0 c(4)] by auto
    have "fst (read_bytes q w0) = Inr content" using read_bytes_reads [OF f1, of q] c(5) by simp
    then have "fst (image_source (search_paths b1) n w0) = Inr content"
      by (simp add: extends_fields(2) [OF deps(2)] image_source_def bindM_run c(2,3))
    then have src: "fst (image_source (search_paths b1) n w1) = Inr content"
      using image_source_reads [OF f1] by simp
    have d1: "image_deps b1 n = Inr deps" using c(1) extends_image_deps [OF deps(2)] by simp
    note stored = store_tag_extends [OF deps(1) d1 deps(3) src _ c(7), of b']
    show ?thesis using stored extends_trans [OF deps(2)] c(8,9) by simp
  qed
qed simp

lemma calculate_each_ok:
  "tags_ok w b \<Longrightarrow> calculate_each b ns w = (Inr b', w') \<Longrightarrow>
   tags_ok w' b' \<and> extends b b' \<and> set ns \<subseteq> dom (map_of (generated_tags b'))"
proof (induction ns arbitrary: b w)
  case (Cons n ns)
  from Cons.prems(2) obtain t b1 w1 where c: "calculate_tag_for_image recursion_limit b n w = (Inr (t, b1), w1)"
    "calculate_each b1 ns w1 = (Inr b', w')" by (auto simp: bindM_Inr)
  note first = calculate_tag_ok [OF Cons.prems(1) c(1)]
  note rest = Cons.IH [OF first [THEN conjunct1] c(2)]
  then show ?case using first extends_fields(5) [of b1 b'] extends_trans by auto
qed simp

lemma mapE_generated_tag:
  "mapE (generated_tag b) ns = Inr tags \<longleftrightarrow> list_all2 (\<lambda>n t. map_of (generated_tags b) n = Some t) ns tags"
proof -
  have "generated_tag b n = Inr t \<longleftrightarrow> map_of (generated_tags b) n = Some t" for n t
    by (simp add: generated_tag_def split: option.splits)
  then show ?thesis by (simp add: mapE_Inr)
qed


text \<open>
  C7. The tags that \<^verbatim>\<open>calculate_tags\<close> returns, one for each image of the build order, are the
  content addresses: the tag of an image is made of the SHA-256 digest of its Dockerfile followed by
  the sorted build arguments, which hold the tags of its dependencies, and the same holds for every
  tag the builder remembers.
\<close>

theorem calculate_tags_content_address:
  assumes "generated_tags b = []" "calculate_tags b targets w = (Inr (tags, b'), w')"
  shows "tags_ok w' b' \<and> extends b b' \<and>
    (\<exists>ns. fst (get_build_order b targets w) = Inr ns \<and> list_all2 (tag_ok w' b') ns tags)"
proof -
  from assms(2) obtain ns w1 where c: "get_build_order b targets w = (Inr ns, w1)"
    "calculate_each b ns w1 = (Inr b', w')" "mapE (generated_tag b') ns = Inr tags"
    by (auto simp: calculate_tags_def bindM_Inr)
  have ok: "tags_ok w' b'" "extends b b'"
    using calculate_each_ok [OF _ c(2)] assms(1) by (simp_all add: tags_ok_def)
  have "list_all2 (tag_ok w' b') ns tags"
    using c(3) [unfolded mapE_generated_tag] by (rule list_all2_mono) (use ok(1) in \<open>simp add: tags_ok_def\<close>)
  then show ?thesis using ok c(1) by auto
qed

section \<open>The specification determines the tags\<close>


lemma image_deps_preds:
  assumes "dependency_graph (image_configs_map b) = Inr g" "dict_wf (image_configs_map b)"
    and "image_deps b n = Inr deps"
  shows "snd ` set deps = preds g n"
proof -
  let ?cs = "image_configs_map b"
  from assms(3) obtain conf where conf: "map_of ?cs n = Some conf" "deps_of conf = Inr deps"
    by (auto simp: image_deps_def split: option.splits)
  then have "(n, conf) \<in> set ?cs" by (auto dest: map_of_SomeD)
  then obtain i where i: "i < length ?cs" "?cs ! i = (n, conf)" by (auto simp: in_set_conv_nth)
  note entries = dependency_graph_entries [OF assms(1)]
  have "g ! i = (n, remdups (map snd deps))"
    using list_all2_nthD [OF entries i(1)] i(2) conf(2) by auto
  moreover have "i < length g" using list_all2_lengthD [OF entries] i(1) by simp
  ultimately have "(n, remdups (map snd deps)) \<in> set g" by (metis nth_mem)
  moreover have "distinct (dict_keys g)" using dependency_graph_keys [OF assms(1)] assms(2) by simp
  ultimately have "map_of g n = Some (remdups (map snd deps))" by simp
  then show ?thesis by (simp add: preds_def)
qed



section \<open>The recursion limit\<close>

lemma deps_of_error: "deps_of conf = Inl e \<Longrightarrow> e \<noteq> RecursionError"
proof -
  have entry: "mapE dep_entry kvs = Inl e \<Longrightarrow> e \<noteq> RecursionError" for kvs
  proof (induction kvs)
    case (Cons kv kvs)
    then show ?case by (cases kv; cases "snd kv") (auto simp: bindE_Inl)
  qed simp
  have get: "json_get conf k = Inl e \<Longrightarrow> e \<noteq> RecursionError" for k
    by (cases conf) (auto split: option.splits)
  assume err: "deps_of conf = Inl e"
  show "e \<noteq> RecursionError"
  proof (cases "json_get conf ''deps''")
    case (Inl e')
    then show ?thesis using err get [of "''deps''"] by (simp add: deps_of_def)
  next
    case (Inr v)
    then show ?thesis using err entry by (cases v) (auto simp: deps_of_def)
  qed
qed

lemma image_deps_error: "image_deps b n = Inl e \<Longrightarrow> e \<noteq> RecursionError"
  by (auto simp: image_deps_def deps_of_error split: option.splits)



lemma raises_in_find_dockerfile: "raises_in S (find_dockerfile ps name)"
proof (induction ps)
  case (Cons p ps)
  show ?case unfolding find_dockerfile.simps Let_def path_exists_def by (intro raises_in_intros Cons.IH)
qed (unfold find_dockerfile.simps, rule raises_in_retM)

lemma raises_in_path_resolve: "{e. is_os_error e} \<subseteq> S \<Longrightarrow> raises_in S (path_resolve p)"
proof -
  have "is_os_error (fs_exn e p)" for e by (cases e) simp_all
  then show "{e. is_os_error e} \<subseteq> S \<Longrightarrow> raises_in S (path_resolve p)"
    by (auto simp: raises_in_def path_resolve_def split: sum.splits)
qed

text \<open>With the tags of the dependencies at hand the recursion goes one level deep.\<close>

lemma dep_steps_memo:
  "snd ` set deps \<subseteq> dom (map_of (generated_tags b)) \<Longrightarrow>
   \<exists>args'. foldM (dep_step (Suc k)) (args, b) deps w = (Inr (args', b), w)"
proof (induction deps arbitrary: args)
  case (Cons ad deps)
  obtain a d where ad: "ad = (a, d)" by fastforce
  obtain t where "map_of (generated_tags b) d = Some t" using Cons.prems by (auto simp: ad)
  then show ?case using Cons.IH Cons.prems by (auto simp: ad dep_step_def bindM_run)
qed simp

lemma calculate_tag_shallow:
  assumes "\<And>deps. image_deps b n = Inr deps \<Longrightarrow> snd ` set deps \<subseteq> dom (map_of (generated_tags b))"
  shows "raises_in (- {RecursionError}) (calculate_tag_for_image (Suc (Suc k)) b n)"
proof (cases "map_of (generated_tags b) n")
  case None
  have os: "{e. is_os_error e} \<subseteq> - {RecursionError}" by auto
  have memo: "raises_in (- {RecursionError}) (foldM (dep_step (Suc k)) ([], b) deps)"
    if "image_deps b n = Inr deps" for deps
    unfolding raises_in_def using dep_steps_memo [OF assms [OF that]] by (metis Pair_inject sum.distinct(1))
  show ?thesis
    apply (subst calculate_tag_for_image.simps(2))
    unfolding None option.case dep_step_def [symmetric] store_tag_def calculate_sha256_def Let_def
    by (intro raises_in_bindM_dep raises_in_emit raises_in_liftM raises_in_case_option raises_in_find_dockerfile
        raises_in_raiseM raises_in_path_resolve raises_in_case_prod raises_in_read_bytes raises_in_retM memo os)
      (auto dest: image_deps_error)
qed (simp add: raises_in_def)

lemma calculate_each_shallow:
  assumes "dependency_graph (image_configs_map b) = Inr g" "dict_wf (image_configs_map b)" "tags_ok w b"
    and "\<And>xs n ys. ns = xs @ n # ys \<Longrightarrow> preds g n \<subseteq> dom (map_of (generated_tags b)) \<union> set xs"
  shows "fst (calculate_each b ns w) \<noteq> Inl RecursionError"
  using assms
proof (induction ns arbitrary: b w)
  case (Cons n ns)
  have "snd ` set deps \<subseteq> dom (map_of (generated_tags b))" if "image_deps b n = Inr deps" for deps
    using image_deps_preds [OF Cons.prems(1,2) that] Cons.prems(4) [of "[]" n ns] by simp
  then have shallow: "raises_in (- {RecursionError}) (calculate_tag_for_image recursion_limit b n)"
    using calculate_tag_shallow [of b n 998] by (simp add: recursion_limit_def)
  show ?case
  proof (cases "calculate_tag_for_image recursion_limit b n w")
    case (Pair r w1)
    show ?thesis
    proof (cases r)
      case (Inl e)
      then show ?thesis using Pair raises_inD [OF shallow] by (auto simp: bindM_run)
    next
      case (Inr tb)
      obtain t b1 where tb: "tb = (t, b1)" by fastforce
      have ok: "tags_ok w1 b1 \<and> extends b b1 \<and> map_of (generated_tags b1) n = Some t"
        using calculate_tag_ok [OF Cons.prems(3)] Pair Inr tb by blast
      note ext = extends_fields [OF ok [THEN conjunct2, THEN conjunct1]]
      have dom: "insert n (dom (map_of (generated_tags b))) \<subseteq> dom (map_of (generated_tags b1))"
        using ext(5) ok by auto
      have "preds g m \<subseteq> dom (map_of (generated_tags b1)) \<union> set xs" if "ns = xs @ m # ys" for xs m ys
        using Cons.prems(4) [of "n # xs" m ys] that dom by auto
      then have "fst (calculate_each b1 ns w1) \<noteq> Inl RecursionError"
        using Cons.IH [of b1 w1] Cons.prems(1,2) ext(1) ok by simp
      then show ?thesis by (simp add: bindM_run Pair Inr tb)
    qed
  qed
qed simp

text \<open>
  C9. \<^verbatim>\<open>calculate_tags\<close> never hits Python's recursion limit, however long the chains of dependencies
  are and even if they are cyclic: the images are taken in an order in which the recursive
  calls find their tags stored.
\<close>

theorem calculate_tags_no_recursion_error:
  assumes "hash_order (w_order w)" "dict_wf (image_configs_map b)"
    and "dependency_graph (image_configs_map b) = Inr g"
    and "set targets \<subseteq> set (dict_keys (image_configs_map b))" "generated_tags b = []"
  shows "fst (calculate_tags b targets w) \<noteq> Inl RecursionError"
proof (cases "get_build_order b targets w")
  case (Pair r w1)
  note order = build_order_cases [OF assms(1-4)]
  show ?thesis
  proof (cases r)
    case (Inl e)
    then have "e = SystemExit 1" using order Pair by (auto split: if_splits)
    then show ?thesis using Pair Inl by (simp add: calculate_tags_def bindM_run)
  next
    case (Inr ns)
    then have "deps_first g ns" using order Pair by (auto split: if_splits)
    then have each: "fst (calculate_each b ns w1) \<noteq> Inl RecursionError"
      using calculate_each_shallow [OF assms(3,2), of w1 ns] assms(5) by (simp add: tags_ok_def deps_first_def)
    have tags: "mapE (generated_tag b') ns \<noteq> Inl RecursionError" for b'
    proof (induction ns)
      case (Cons n ns)
      then show ?case by (auto simp: bindE_Inl generated_tag_def split: option.splits)
    qed simp
    show ?thesis
      using each tags by (auto simp: calculate_tags_def bindM_run Pair Inr split: prod.splits sum.splits)
  qed
qed

section \<open>A concrete run\<close>

definition tag_fs :: node where
  "tag_fs = Dir [(''images'', Dir [(''base.Dockerfile'', File ''FROM scratch'' 0)])]"

definition tag_world :: world where
  "tag_world = sample_world\<lparr>w_fs := tag_fs\<rparr>"

definition tag_builder :: builder where
  "tag_builder = sample_builder\<lparr>image_configs_map := [(''base'', sample_image [])]\<rparr>"

lemma tag_fs_simps:
  "exists_at tag_fs [''images'', ''base.Dockerfile'']"
  "realpath tag_fs max_links [] [''images'', ''base.Dockerfile''] = Inr [''images'', ''base.Dockerfile'']"
  "stat tag_fs [''images'', ''base.Dockerfile''] = Inr (File ''FROM scratch'' 0)"
  "path_of (os_join (str_path (path_of ''/images'')) (dockerfile_name ''base'')) =
     Path ''/'' [''images'', ''base.Dockerfile'']"
  by code_simp+

lemma tag_builder_simps:
  "image_configs_map tag_builder = [(''base'', sample_image [])]" "generated_tags tag_builder = []"
  "search_paths tag_builder = [path_of ''/images'']" "w_order tag_world = (\<lambda>xs. xs)" "w_fs tag_world = tag_fs"
  by (simp_all add: tag_builder_def sample_builder_def new_builder_def tag_world_def sample_world_def)

lemma tag_builder_graph: "dependency_graph (image_configs_map tag_builder) = Inr [(''base'', [])]"
  by (simp add: tag_builder_simps dependency_graph_def sample_image_def deps_of_def)

lemma tag_builder_order:
  "get_build_order tag_builder [] tag_world =
     (Inr [''base''], tag_world\<lparr>w_trace := w_trace tag_world @ [Log INFO ''Processing all Docker images...'']\<rparr>)"
proof -
  have "static_order (ts_init (sorter_graph (\<lambda>xs. xs) [(''base'', [])])) = Inr [''base'']" by code_simp
  then show ?thesis
    using tag_builder_graph
    by (simp add: get_build_order_def build_order_all_def bindM_run tag_builder_simps)
qed

lemma tag_builder_deps: "image_deps tag_builder ''base'' = Inr []"
  by (simp add: image_deps_def tag_builder_simps sample_image_def deps_of_def)

lemma tag_builder_tag:
  assumes "w_fs w = tag_fs"
  shows "\<exists>t b' w'. calculate_tag_for_image recursion_limit tag_builder ''base'' w = (Inr (t, b'), w') \<and>
           generated_tags b' = [(''base'', t)]"
proof -
  have "\<exists>t b' w'. calculate_tag_for_image (Suc k) tag_builder ''base'' w = (Inr (t, b'), w') \<and>
          generated_tags b' = [(''base'', t)]" for k
    by (simp add: bindM_run tag_builder_simps tag_builder_deps Let_def path_exists_def comps_def is_absolute_def
        assms tag_fs_simps path_resolve_def store_tag_def calculate_sha256_def read_bytes_def
        del: realpath.simps)
  from this [of 999] show ?thesis by (simp add: recursion_limit_def)
qed

theorem calculate_tags_content_address_witness:
  "\<exists>tags b' w'. calculate_tags tag_builder [] tag_world = (Inr (tags, b'), w') \<and> length tags = 1 \<and> tags_ok w' b'"
proof -
  obtain t b' w' where "calculate_tag_for_image recursion_limit tag_builder ''base''
      (tag_world\<lparr>w_trace := w_trace tag_world @ [Log INFO ''Processing all Docker images...'']\<rparr>) = (Inr (t, b'), w')"
    "generated_tags b' = [(''base'', t)]"
    using tag_builder_tag [of "tag_world\<lparr>w_trace := w_trace tag_world @ [Log INFO ''Processing all Docker images...'']\<rparr>"]
    by (auto simp: tag_builder_simps)
  then have run: "calculate_tags tag_builder [] tag_world = (Inr ([t], b'), w')"
    by (simp add: calculate_tags_def bindM_run tag_builder_order generated_tag_def)
  then show ?thesis
    using calculate_tags_content_address [OF tag_builder_simps(2) run] by auto
qed

theorem calculate_tags_no_recursion_error_witness:
  "fst (calculate_tags tag_builder [] tag_world) \<noteq> Inl RecursionError"
  by (rule calculate_tags_no_recursion_error [OF _ _ tag_builder_graph])
    (simp_all add: tag_builder_simps hash_order_id)



end
