(* ===== verification/DockerPipeline.thy ===== *)
theory DockerPipeline
  imports DockerTags
begin

text \<open>
  The build loop of \<^verbatim>\<open>src/.devkit/scripts/docker/build.py\<close> as a whole: when
  \<^verbatim>\<open>DockerBuilder.build_images\<close> returns, docker's store holds the content-addressed tag of every image
  of the build order.
\<close>

section \<open>A docker store that only grows\<close>

definition image_cmd :: "string list \<Rightarrow> bool" where
  "image_cmd cmd = (\<exists>tag. cmd \<in> local_cmds tag \<union> registry_cmds tag)"

text \<open>The commands that manage images remove no tag and leave the source tree alone.\<close>

definition docker_store ::
  "(event list \<Rightarrow> node \<Rightarrow> string list \<Rightarrow> proc \<times> node) \<Rightarrow>
   (string list list \<Rightarrow> node \<Rightarrow> string \<Rightarrow> bool) \<Rightarrow> bool" where
  "docker_store ex present =
     (docker_keeps ex present \<and>
      (\<forall>tr fs cmd r fs'. image_cmd cmd \<longrightarrow> ex tr fs cmd = (r, fs') \<longrightarrow>
         fs' = fs \<and> (\<forall>tag. present (execs tr) fs tag \<longrightarrow> present (execs tr @ [cmd]) fs' tag)))"

lemma docker_storeD:
  "docker_store ex present \<Longrightarrow> image_cmd cmd \<Longrightarrow> ex tr fs cmd = (r, fs') \<Longrightarrow>
   fs' = fs \<and> (\<forall>tag. present (execs tr) fs tag \<longrightarrow> present (execs tr @ [cmd]) fs' tag)"
  unfolding docker_store_def by blast

definition store_kept ::
  "(event list \<Rightarrow> node \<Rightarrow> string list \<Rightarrow> proc \<times> node) \<Rightarrow>
   (string list list \<Rightarrow> node \<Rightarrow> string \<Rightarrow> bool) \<Rightarrow> world \<Rightarrow> world \<Rightarrow> bool" where
  "store_kept ex present w w' =
     (w_exec w = ex \<longrightarrow> same_files w w' \<and> (\<forall>tag. has_tag present tag w \<longrightarrow> has_tag present tag w'))"

interpretation store: frame "store_kept ex present" for ex present
  by unfold_locales (auto simp: store_kept_def same_files_def same_setting_def)

lemma store_keeps_log: "store.keeps ex present (emit (Log l s))"
  and store_keeps_print: "store.keeps ex present (emit (Print f s))"
  by (simp_all add: store.keeps_def store_kept_def same_files_def same_setting_def has_tag_def)

lemma store_keeps_run_proc:
  assumes "docker_store ex present" "image_cmd cmd"
  shows "store.keeps ex present (run_proc cmd)"
  using docker_storeD [OF assms]
  by (fastforce simp: store.keeps_def store_kept_def same_files_def same_setting_def has_tag_def run_proc_def
      Let_def split: prod.splits proc.splits)

lemma store_keeps_run_checked:
  "docker_store ex present \<Longrightarrow> image_cmd cmd \<Longrightarrow> store.keeps ex present (run_checked c cmd)"
  unfolding run_checked_def Let_def by (intro store.keeps_intros store_keeps_run_proc)

lemmas store_keeps =
  store.keeps_intros store_keeps_log store_keeps_print store_keeps_run_proc store_keeps_run_checked

lemma image_cmds [simp]:
  "image_cmd (inspect_cmd tag)" "image_cmd (manifest_cmd tag)" "image_cmd (pull_cmd tag)"
  "image_cmd (push_cmd tag)" "is_build_cmd tag cmd \<Longrightarrow> image_cmd cmd"
  by (auto simp: image_cmd_def local_cmds_def registry_cmds_def)

lemma liftM_Inl: "liftM (Inl e) = raiseM e"
  by (simp add: fun_eq_iff)

lemma store_keeps_build_image:
  assumes "docker_store ex present"
  shows "store.keeps ex present (build_image tag df args ctx nc)"
proof (cases "build_cmd tag df args ctx nc")
  case (Inl e)
  show ?thesis
    unfolding build_image_def print_err_part_def Inl liftM_Inl bindM_raiseM by (intro store_keeps)
next
  case (Inr cmd)
  have lift: "liftM (Inr x) = retM x" for x :: 'b by (simp add: fun_eq_iff)
  show ?thesis
    unfolding build_image_def print_err_part_def log_output_def Inr lift bindM_retM
    by (intro store_keeps assms image_cmds(5) [OF build_cmd_is_build [OF Inr]])
qed

lemma store_keeps_docker_failed: "store.keeps ex present (docker_failed tag e)"
  by (cases e) (simp_all only: docker_failed_def exn.case, (intro store_keeps)+)

lemma store_keeps_manage:
  assumes "docker_store ex present"
  shows "store.keeps ex present (manage_docker_image tag df args ctx l nc r)"
  unfolding manage_docker_image_def provide_image_def provide_missing_def
    pull_image_from_registry_def push_image_to_registry_def check_if_image_exists_locally_def
    check_if_image_exists_in_remote_registry_def log_output_def print_err_part_def
  by (intro store_keeps store_keeps_docker_failed store_keeps_build_image assms image_cmds)

lemma store_keeps_find_dockerfile: "store.keeps ex present (find_dockerfile ps name)"
  by (induction ps) (simp_all only: find_dockerfile.simps Let_def, (intro store_keeps, assumption?)+)

lemma store_keeps_store_tag: "store.keeps ex present (store_tag b n p args)"
  unfolding store_tag_def calculate_sha256_def Let_def by (intro store_keeps)

lemma store_keeps_calculate_tag: "store.keeps ex present (calculate_tag_for_image k b n)"
proof (induction k arbitrary: b n)
  case (Suc k)
  show ?case
    unfolding calculate_tag_for_image.simps
    by (intro store_keeps store_keeps_find_dockerfile store_keeps_store_tag Suc.IH)
qed (unfold calculate_tag_for_image.simps, rule store.keeps_raiseM)

lemma store_keeps_build_order: "store.keeps ex present (get_build_order b targets)"
  unfolding get_build_order_def get_dependency_subgraph_def build_order_all_def
  by (intro store_keeps)

section \<open>One image, and all of them\<close>

lemma store_keptD:
  assumes "store.keeps ex present m" "m w = (r, w')" "w_exec w = ex"
  shows "same_files w w'" "has_tag present tag w \<Longrightarrow> has_tag present tag w'" "w_exec w' = ex"
  using store.keepsD [OF assms(1,2)] assms(3)
  by (auto simp: store_kept_def same_files_def same_setting_def)

lemma tags_ok_files: "tags_ok w b \<Longrightarrow> same_files w w' \<Longrightarrow> tags_ok w' b"
  unfolding tags_ok_def by (blast intro: tag_ok_mono extends_refl)

lemma process_image_store:
  assumes ds: "docker_store ex present" and ex: "w_exec w = ex" and ok: "tags_ok w b"
    and run: "process_image nc l b n w = (Inr (tag, b'), w')"
  shows "store_kept ex present w w'" "w_exec w' = ex" "tags_ok w' b'" "extends b b'"
    "map_of (generated_tags b') n = Some tag" "has_tag present tag w'"
proof -
  have "store.keeps ex present (process_image nc l b n)"
    unfolding process_image_def
    by (intro store_keeps store_keeps_calculate_tag store_keeps_find_dockerfile store_keeps_manage ds)
  note kept = store.keepsD [OF this run] store_keptD [OF this run ex]
  then show "store_kept ex present w w'" "w_exec w' = ex" by simp_all
  from run obtain w1 w2 w3 p q df args ctx loc r where
    c: "calculate_tag_for_image recursion_limit b n w = (Inr (tag, b'), w1)"
    and s: "find_dockerfile (search_paths b') (dockerfile_name n) w1 = (Inr (Some p), w2)"
      "path_resolve p w2 = (Inr q, w3)"
    and m: "manage_docker_image tag df args ctx loc nc r w3 = (Inr (), w')"
    by (auto simp: process_image_def bindM_Inr split: option.splits)
  have w3: "w3 = w1" using s find_dockerfile_same path_resolve_same by (metis snd_conv)
  note calc = calculate_tag_ok [OF ok c]
  have ex1: "w_exec w1 = ex" by (rule store_keptD(3) [OF store_keeps_calculate_tag c ex])
  have "same_files w1 w'" using store_keptD(1) [OF store_keeps_manage [OF ds] m] ex1 by (simp add: w3)
  then show "tags_ok w' b'" using tags_ok_files calc by blast
  show "extends b b'" "map_of (generated_tags b') n = Some tag" using calc by simp_all
  have "docker_keeps (w_exec w3) present" using ds by (simp add: docker_store_def w3 ex1)
  then show "has_tag present tag w'"
    using wp_returns [OF provide_image_provides [OF _ refl] manage_returns [OF m]] by simp
qed

lemma build_each_store:
  assumes ds: "docker_store ex present"
    and "w_exec w = ex" "tags_ok w b" "build_each None nc l b ns w = (Inr b', w')"
  shows "store_kept ex present w w' \<and> tags_ok w' b' \<and> extends b b' \<and>
    (\<forall>n\<in>set ns. \<exists>tag. map_of (generated_tags b') n = Some tag \<and> has_tag present tag w')"
  using assms(2-4)
proof (induction ns arbitrary: b w)
  case (Cons n ns)
  from Cons.prems(3) obtain tag b1 w1 where p: "process_image nc l b n w = (Inr (tag, b1), w1)"
    "build_each None nc l b1 ns w1 = (Inr b', w')" by (auto simp: bindM_Inr)
  note first = process_image_store [OF ds Cons.prems(1,2) p(1)]
  note rest = Cons.IH [OF first(2,3) p(2)]
  have "store_kept ex present w w'" using store.trans first(1) rest by blast
  moreover have "has_tag present tag w'" using rest first(2,6) by (auto simp: store_kept_def)
  moreover have "map_of (generated_tags b') n = Some tag" using rest extends_fields(5) first(5) by blast
  ultimately show ?case using rest extends_trans [OF first(4)] by auto
qed (simp add: store.refl)

lemma build_images_store:
  assumes ds: "docker_store (w_exec w) present" and b: "generated_tags b = []"
    and run: "build_images b targets False nc l w = (Inr b', w')"
  shows "tags_ok w' b' \<and> extends b b' \<and> w_fs w' = w_fs w \<and>
    (\<exists>ns. fst (get_build_order b targets w) = Inr ns \<and>
       (\<forall>n\<in>set ns. \<exists>tag. map_of (generated_tags b') n = Some tag \<and> has_tag present tag w'))"
proof -
  from run obtain ns w1 w2 where o: "get_build_order b targets w = (Inr ns, w1)"
    and e: "build_each None nc l b ns w1 = (Inr b', w2)" and log: "\<exists>s. w' = w2\<lparr>w_trace := w_trace w2 @ [Log INFO s]\<rparr>"
    by (auto simp: build_images_def bindM_Inr whenM_def split: if_splits)
  note kept = store_keptD [OF store_keeps_build_order o refl]
  have "tags_ok w1 b" by (simp add: tags_ok_def b)
  note each = build_each_store [OF ds kept(3) this e]
  have files: "same_files w2 w'" and tag: "has_tag present t w' = has_tag present t w2" for t
    using log by (auto simp: same_files_def same_setting_def has_tag_def)
  have "w_fs w' = w_fs w"
    using kept(1,3) each files by (simp add: store_kept_def same_files_def)
  then show ?thesis using each tags_ok_files [OF _ files] o by (auto simp: tag)
qed

text \<open>
  C13. When \<^verbatim>\<open>DockerBuilder.build_images\<close> has processed its images, every image of the build order has
  a tag that is its content address in the source tree, and docker's local store holds that tag;
  the source tree is unchanged.  Docker's side is a store that image commands only add to.
\<close>

theorem build_images_provides:
  assumes "docker_store (w_exec w) present" "generated_tags b = []"
    and "build_images b targets False nc local w = (Inr b', w')"
  shows "w_fs w' = w_fs w \<and>
    (\<exists>ns. fst (get_build_order b targets w) = Inr ns \<and>
       (\<forall>n\<in>set ns. \<exists>tag. map_of (generated_tags b') n = Some tag \<and> tag_ok w' b' n tag \<and>
          present (execs (w_trace w')) (w_fs w') tag))"
  using build_images_store [OF assms] by (fastforce simp: tags_ok_def has_tag_def)

lemma sample_docker_store: "docker_store sample_docker stored"
  using sample_docker_keeps
  by (auto simp: docker_store_def sample_docker_def stored_def split: list.splits)

lemma tag_builder_builds: "\<exists>b' w'. build_images tag_builder [] False False True tag_world = (Inr b', w')"
proof -
  let ?w1 = "tag_world\<lparr>w_trace := w_trace tag_world @ [Log INFO ''Processing all Docker images...'']\<rparr>"
  obtain t b' w2 where c: "calculate_tag_for_image recursion_limit tag_builder ''base'' ?w1 = (Inr (t, b'), w2)"
    using tag_builder_tag [of ?w1] by (auto simp: tag_builder_simps)
  have ext: "extends tag_builder b'"
    using calculate_tag_ok [OF _ c] by (simp add: tags_ok_def tag_builder_simps)
  have w2: "same_files ?w1 w2" by (rule files.keepsD [OF files_keeps_calculate_tag c])
  then have fs: "w_fs w2 = tag_fs" "w_exec w2 = sample_docker"
    by (simp_all add: same_files_def same_setting_def tag_builder_simps tag_world_def sample_world_def)
  have extra: "extra_args tag_builder ''base'' = []"
    by (simp add: extra_args_def tag_builder_def sample_builder_def new_builder_def)
  have deps: "image_deps b' ''base'' = Inr []"
    using extends_image_deps [OF ext] tag_builder_deps by simp
  have "\<exists>w'. manage_docker_image t df [] ctx True False r w2 = (Inr (), w')" for df ctx r
    by (simp add: manage_docker_image_def provide_image_def provide_missing_def catchM_def bindM_run
        check_if_image_exists_locally_def build_image_def
        build_cmd_def print_err_part_def run_checked_def log_output_def
        run_proc_def fs sample_docker_def stored_def inspect_cmd_def whenM_def Let_def)
  then obtain g where g: "\<And>df ctx r. manage_docker_image t df [] ctx True False r w2 = (Inr (), g df ctx r)"
    by metis
  have "\<exists>w'. process_image False True tag_builder ''base'' ?w1 = (Inr (t, b'), w')"
    using extends_fields(1,2,3) [OF ext] extra
    by (simp add: process_image_def bindM_run c g image_is_local_def tag_builder_simps deps manage_args_def
        Let_def path_exists_def comps_def is_absolute_def fs tag_fs_simps path_resolve_def del: realpath.simps)
  then show ?thesis by (auto simp: build_images_def bindM_run tag_builder_order whenM_def)
qed

theorem build_images_provides_witness:
  "\<exists>b' w' tag. build_images tag_builder [] False False True tag_world = (Inr b', w') \<and>
     map_of (generated_tags b') ''base'' = Some tag \<and> stored (execs (w_trace w')) (w_fs w') tag"
proof -
  obtain b' w' where run: "build_images tag_builder [] False False True tag_world = (Inr b', w')"
    using tag_builder_builds by blast
  have "docker_store (w_exec tag_world) stored"
    using sample_docker_store by (simp add: tag_world_def sample_world_def)
  from build_images_provides [OF this _ run] show ?thesis
    using run tag_builder_order by (auto simp: tag_builder_simps)
qed

end
