(* ===== verification/FindProjectRoot.thy ===== *)
theory FindProjectRoot
  imports PyIO
begin

text \<open>
  \<^verbatim>\<open>src/.devkit/scripts/find_project_root.py\<close>: the project root is the nearest directory, from the
  working directory upwards, that holds an entry \<^verbatim>\<open>devkit\<close>.
\<close>

fun first_with_devkit :: "path list \<Rightarrow> path io" where
  "first_with_devkit [] =
     raiseM (FileNotFoundError ''Could not find project root. Make sure you are in a devkit project.'')"
| "first_with_devkit (p # ps) =
     bindM (path_exists (child p ''devkit'')) (\<lambda>ex. if ex then retM p else first_with_devkit ps)"

definition current_dir :: "world \<Rightarrow> path" where
  "current_dir w =
     path_of (case map_of (w_env w) ''PWD'' of Some s \<Rightarrow> s | None \<Rightarrow> str_path (Path ''/'' (w_cwd w)))"

definition find_project_root :: "path io" where
  "find_project_root = bindM (getM current_dir) (\<lambda>dir. first_with_devkit (dir # parents dir))"

definition find_project_root_main :: "unit io" where
  "find_project_root_main =
     catchM (bindM find_project_root (\<lambda>root. print_out (str_path root)))
       is_file_not_found
       (\<lambda>e. bindM (print_err (''Error: '' @ exn_str e)) (\<lambda>_. sys_exit 1))"

section \<open>The nearest directory\<close>

definition has_devkit :: "world \<Rightarrow> path \<Rightarrow> bool" where
  "has_devkit w p = exists_at (w_fs w) (comps w (child p ''devkit''))"

lemma first_with_devkit_run:
  "first_with_devkit ps w =
     (case find (has_devkit w) ps of
        Some p \<Rightarrow> (Inr p, w)
      | None \<Rightarrow> (Inl (FileNotFoundError ''Could not find project root. Make sure you are in a devkit project.''), w))"
  by (induction ps) (simp_all add: bindM_run path_exists_def has_devkit_def)

text \<open>The parents of a path are listed from the nearest to the root.\<close>

lemma parents_acc_nth:
  "i < length rcs \<Longrightarrow> parents_acc r rcs ! i = Path r (rev (drop (Suc i) rcs))"
proof (induction rcs arbitrary: i)
  case (Cons c rcs)
  then show ?case by (cases i) auto
qed simp

lemma length_parents_acc [simp]: "length (parents_acc r rcs) = length rcs"
  by (induction rcs) auto

lemma ancestors_nth:
  assumes "i \<le> length (p_parts p)"
  shows "(p # parents p) ! i = Path (p_root p) (take (length (p_parts p) - i) (p_parts p))"
proof (cases i)
  case 0
  then show ?thesis by simp
next
  case (Suc j)
  then show ?thesis
    using assms parents_acc_nth [of j "rev (p_parts p)" "p_root p"]
    by (simp add: parents_def rev_drop)
qed

lemma length_ancestors: "length (p # parents p) = Suc (length (p_parts p))"
  by (simp add: parents_def)

lemma ancestor_index:
  assumes "is_relative_to p q"
  shows "(p # parents p) ! (length (p_parts p) - length (p_parts q)) = q"
    "length (p_parts p) - length (p_parts q) < length (p # parents p)"
proof -
  have q: "p_root q = p_root p" "prefix (p_parts q) (p_parts p)" using assms by (auto simp: is_relative_to_def)
  then have "p_parts q = take (length (p_parts q)) (p_parts p)" "length (p_parts q) \<le> length (p_parts p)"
    by (metis append_eq_conv_conj prefix_def, simp add: prefix_length_le)
  then show "(p # parents p) ! (length (p_parts p) - length (p_parts q)) = q"
    using q(1) by (cases q) (simp add: ancestors_nth)
  show "length (p_parts p) - length (p_parts q) < length (p # parents p)"
    unfolding length_ancestors by simp
qed

lemma ancestor_rel:
  assumes "i < length (p # parents p)"
  shows "is_relative_to p ((p # parents p) ! i)"
    "length (p_parts ((p # parents p) ! i)) = length (p_parts p) - i"
  using assms unfolding length_ancestors by (simp_all add: ancestors_nth is_relative_to_def take_is_prefix)

lemma between_index:
  assumes "i < length (p # parents p)" "j < i"
  shows "is_relative_to ((p # parents p) ! j) ((p # parents p) ! i)" "(p # parents p) ! j \<noteq> (p # parents p) ! i"
proof -
  have i: "i \<le> length (p_parts p)" "j \<le> length (p_parts p)" using assms unfolding length_ancestors by simp_all
  show "is_relative_to ((p # parents p) ! j) ((p # parents p) ! i)"
    using assms(2) by (simp only: ancestors_nth [OF i(1)] ancestors_nth [OF i(2)])
      (simp add: is_relative_to_def prefix_def, metis append_take_drop_id diff_le_mono2 less_imp_le min.absorb1 take_take)
  have "length (p_parts ((p # parents p) ! j)) \<noteq> length (p_parts ((p # parents p) ! i))"
    using assms i ancestor_rel(2) [of i p] ancestor_rel(2) [of j p] by simp
  then show "(p # parents p) ! j \<noteq> (p # parents p) ! i" by auto
qed

definition nearest :: "world \<Rightarrow> path \<Rightarrow> path \<Rightarrow> bool" where
  "nearest w dir r =
     (is_relative_to dir r \<and> has_devkit w r \<and>
      (\<nexists>q. is_relative_to dir q \<and> is_relative_to q r \<and> q \<noteq> r \<and> has_devkit w q))"

lemma find_nearest: "find (has_devkit w) (dir # parents dir) = Some r \<longleftrightarrow> nearest w dir r"
proof
  let ?anc = "dir # parents dir"
  assume "find (has_devkit w) ?anc = Some r"
  then obtain i where i: "i < length ?anc" "has_devkit w (?anc ! i)" "r = ?anc ! i"
    "\<And>j. j < i \<Longrightarrow> \<not> has_devkit w (?anc ! j)" unfolding find_Some_iff by blast
  have "\<not> has_devkit w q" if q: "is_relative_to dir q" "is_relative_to q r" "q \<noteq> r" for q
  proof -
    have len: "length (p_parts r) < length (p_parts q)"
    proof -
      have "prefix (p_parts r) (p_parts q)" "p_root q = p_root r" using q(2) by (auto simp: is_relative_to_def)
      then show ?thesis using q(3) by (metis path.exhaust_sel prefix_length_le prefix_order.eq_iff
            le_neq_implies_less not_equal_is_parallel parallelE prefix_same_cases prefix_def append_eq_append_conv
            append.right_neutral)
    qed
    have "length (p_parts r) = length (p_parts dir) - i" using ancestor_rel(2) [OF i(1)] i(3) by simp
    moreover have "length (p_parts q) \<le> length (p_parts dir)"
      using q(1) by (simp add: is_relative_to_def prefix_length_le)
    ultimately have "length (p_parts dir) - length (p_parts q) < i" using len by simp
    then show ?thesis using i(4) ancestor_index(1) [OF q(1)] by metis
  qed
  then show "nearest w dir r" unfolding nearest_def using i ancestor_rel(1) [OF i(1)] by blast
next
  let ?anc = "dir # parents dir"
  assume near: "nearest w dir r"
  then have r: "is_relative_to dir r" by (simp add: nearest_def)
  define i where "i = length (p_parts dir) - length (p_parts r)"
  have i: "i < length ?anc" "?anc ! i = r" unfolding i_def using ancestor_index [OF r] by simp_all
  have "\<not> has_devkit w (?anc ! j)" if "j < i" for j
    using between_index [OF i(1) that] ancestor_rel(1) [of j dir] i near that unfolding nearest_def by auto
  then show "find (has_devkit w) ?anc = Some r"
    unfolding find_Some_iff using i near by (auto simp: nearest_def)
qed

text \<open>
  C11. \<^verbatim>\<open>find_project_root\<close> returns the nearest ancestor of the current directory, itself included,
  that has an entry \<^verbatim>\<open>devkit\<close>, and raises \<^verbatim>\<open>FileNotFoundError\<close> exactly if no ancestor has one; the
  world is left alone.
\<close>

theorem find_project_root_nearest:
  "case find_project_root w of
     (Inr r, w') \<Rightarrow> w' = w \<and> nearest w (current_dir w) r
   | (Inl e, w') \<Rightarrow> w' = w \<and> is_file_not_found e \<and>
       (\<nexists>q. is_relative_to (current_dir w) q \<and> has_devkit w q)"
proof (cases "find (has_devkit w) (current_dir w # parents (current_dir w))")
  case None
  have "\<not> has_devkit w q" if "is_relative_to (current_dir w) q" for q
  proof -
    have "q \<in> set (current_dir w # parents (current_dir w))"
      using ancestor_index [OF that] nth_mem by metis
    then show ?thesis using None unfolding find_None_iff by blast
  qed
  then show ?thesis
    using None by (simp add: find_project_root_def bindM_run first_with_devkit_run del: first_with_devkit.simps find.simps)
next
  case (Some r)
  moreover have "nearest w (current_dir w) r" using Some find_nearest by blast
  ultimately show ?thesis
    by (simp add: find_project_root_def bindM_run first_with_devkit_run del: first_with_devkit.simps find.simps)
qed

end
