(* ===== verification/PyFiles.thy ===== *)
theory PyFiles
  imports PyIO
begin

text \<open>
  The operations that change the file system (\<^verbatim>\<open>mkdir\<close>, \<^verbatim>\<open>touch\<close>, writing a file, \<^verbatim>\<open>copymode\<close>), the
  walk over a directory tree (\<^verbatim>\<open>os.walk\<close>), and the opening of the log file.  Permissions and a full
  disk are not modelled.
\<close>

section \<open>Creating directories and files\<close>

text \<open>\<^verbatim>\<open>os.mkdir\<close>: \<open>None\<close> for the error \<open>EEXIST\<close>.\<close>

definition mkdir_at :: "node \<Rightarrow> string list \<Rightarrow> fs_error + node option" where
  "mkdir_at fs cs =
     (if cs = [] then Inr None
      else (case walk fs max_links [] (butlast cs) of
              Inl e \<Rightarrow> Inl e
            | Inr (cur, _) \<Rightarrow>
                (case lookup_last fs cur (last cs) of
                   Inr _ \<Rightarrow> Inr None
                 | Inl ENOENT \<Rightarrow> Inr (Some (put_node fs (cur @ [last cs]) (Dir [])))
                 | Inl e \<Rightarrow> Inl e)))"

text \<open>\<^verbatim>\<open>Path.mkdir(exist_ok=True)\<close>, and with \<^verbatim>\<open>parents=True\<close> on the components that are there.\<close>

definition mkdir_exist_ok :: "path \<Rightarrow> node \<Rightarrow> string list \<Rightarrow> exn + node" where
  "mkdir_exist_ok p fs cs =
     (case mkdir_at fs cs of
        Inr (Some fs') \<Rightarrow> Inr fs'
      | Inr None \<Rightarrow> (if is_dir_at fs cs then Inr fs else Inl (OSError (''File exists: '' @ str_path p)))
      | Inl e \<Rightarrow> (if e \<noteq> ENOENT \<and> is_dir_at fs cs then Inr fs else Inl (fs_exn e p)))"

function mkdir_parents :: "path \<Rightarrow> node \<Rightarrow> string list \<Rightarrow> exn + node" where
  "mkdir_parents p fs cs =
     (if mkdir_at fs cs = Inl ENOENT \<and> cs \<noteq> [] then
        bindE (mkdir_parents p fs (butlast cs)) (\<lambda>fs'. mkdir_exist_ok p fs' cs)
      else mkdir_exist_ok p fs cs)"
  by pat_completeness auto
termination
  by (relation "measure (\<lambda>(p, fs, cs). length cs)") auto

declare mkdir_parents.simps [simp del]

definition updates_fs :: "(node \<Rightarrow> string list \<Rightarrow> exn + node) \<Rightarrow> path \<Rightarrow> unit io" where
  "updates_fs f p =
     (\<lambda>w. case f (w_fs w) (comps w p) of
            Inl e \<Rightarrow> (Inl e, w)
          | Inr fs' \<Rightarrow> (Inr (), w\<lparr>w_fs := fs'\<rparr>))"

definition path_mkdir :: "path \<Rightarrow> unit io" where
  "path_mkdir p = updates_fs (mkdir_parents p) p"

text \<open>Opening for writing: the file is created with \<^verbatim>\<open>0o644\<close> where it does not exist.\<close>

definition file_mode :: nat where
  "file_mode = 420"

definition write_at :: "path \<Rightarrow> (string \<Rightarrow> string) \<Rightarrow> node \<Rightarrow> string list \<Rightarrow> exn + node" where
  "write_at p change fs cs =
     (case realpath fs max_links [] cs of
        Inl e \<Rightarrow> Inl (fs_exn e p)
      | Inr cs' \<Rightarrow>
          (case node_at fs cs' of
             Some (File s m) \<Rightarrow> Inr (put_node fs cs' (File (change s) m))
           | Some _ \<Rightarrow> Inl (OSError (''Is a directory: '' @ str_path p))
           | None \<Rightarrow>
               (case node_at fs (butlast cs') of
                  Some (Dir _) \<Rightarrow> Inr (put_node fs cs' (File (change []) file_mode))
                | Some _ \<Rightarrow> Inl (fs_exn ENOTDIR p)
                | None \<Rightarrow> Inl (fs_exn ENOENT p))))"

definition write_text :: "path \<Rightarrow> string \<Rightarrow> unit io" where
  "write_text p s = updates_fs (write_at p (\<lambda>_. s)) p"

text \<open>\<^verbatim>\<open>Path.touch(exist_ok=True)\<close>: nothing to do where the path exists, a directory included.\<close>

definition path_touch :: "path \<Rightarrow> unit io" where
  "path_touch p =
     updates_fs (\<lambda>fs cs. if exists_at fs cs then Inr fs else write_at p (\<lambda>s. s) fs cs) p"

definition set_mode_at :: "path \<Rightarrow> nat \<Rightarrow> node \<Rightarrow> string list \<Rightarrow> exn + node" where
  "set_mode_at p m fs cs =
     (case walk fs max_links [] cs of
        Inl e \<Rightarrow> Inl (fs_exn e p)
      | Inr (cs', _) \<Rightarrow>
          (case node_at fs cs' of
             Some (File s _) \<Rightarrow> Inr (put_node fs cs' (File s m))
           | Some _ \<Rightarrow> Inr fs
           | None \<Rightarrow> Inl (fs_exn ENOENT p)))"

definition copymode :: "path \<Rightarrow> path \<Rightarrow> unit io" where
  "copymode src dst =
     bindM (getM (\<lambda>w. stat (w_fs w) (comps w src))) (\<lambda>r.
       case r of
         Inl e \<Rightarrow> raiseM (fs_exn e src)
       | Inr (File _ m) \<Rightarrow> updates_fs (set_mode_at dst m) dst
       | Inr _ \<Rightarrow> retM ())"

section \<open>Logging to a file\<close>

text \<open>\<^verbatim>\<open>logging.basicConfig(filename=...)\<close>: the file is opened, created where it is missing.  The
  records themselves are in the trace.\<close>

definition basic_config :: "path option \<Rightarrow> unit io" where
  "basic_config log_file =
     (case log_file of
        None \<Rightarrow> retM ()
      | Some p \<Rightarrow> updates_fs (write_at p (\<lambda>s. s)) p)"

section \<open>Walking a tree\<close>

text \<open>An entry that counts as a directory: links are followed, with the links that are left.\<close>

definition entry_dir :: "node \<Rightarrow> nat \<Rightarrow> string list \<Rightarrow> string \<times> node \<Rightarrow> bool" where
  "entry_dir fs k cur e =
     (case e of (name, n) \<Rightarrow>
        (case n of
           Dir _ \<Rightarrow> True
         | File _ _ \<Rightarrow> False
         | Link _ \<Rightarrow> (case stat_from fs k cur [name] of Inr (Dir _) \<Rightarrow> True | _ \<Rightarrow> False)))"

definition dir_names :: "node \<Rightarrow> nat \<Rightarrow> string list \<Rightarrow> (string \<times> node) list \<Rightarrow> string list" where
  "dir_names fs k cur es = map fst (filter (entry_dir fs k cur) es)"

definition file_names :: "node \<Rightarrow> nat \<Rightarrow> string list \<Rightarrow> (string \<times> node) list \<Rightarrow> string list" where
  "file_names fs k cur es = map fst (filter (\<lambda>e. \<not> entry_dir fs k cur e) es)"

text \<open>
  \<open>walk_tree\<close> is \<^verbatim>\<open>os.walk(top, topdown=True, followlinks=False)\<close> for a caller that removes names
  from the list of directories (\<open>prune\<close>): the triples in the order in which they are yielded.
\<close>

fun walk_tree ::
  "node \<Rightarrow> (string list \<Rightarrow> string list) \<Rightarrow> nat \<Rightarrow> string list \<Rightarrow> path \<Rightarrow> node \<Rightarrow>
   (path \<times> string list \<times> string list) list" where
  "walk_tree fs prune k cur dirpath (Dir es) =
     (let dirs = prune (dir_names fs k cur es)
      in (dirpath, dirs, file_names fs k cur es) #
         concat (map (\<lambda>(name, n). if name \<in> set dirs
                      then walk_tree fs prune k (cur @ [name]) (joinpath dirpath (Path [] [name])) n else []) es))"
| "walk_tree fs prune k cur dirpath (File _ _) = []"
| "walk_tree fs prune k cur dirpath (Link _) = []"

definition os_walk ::
  "node \<Rightarrow> (string list \<Rightarrow> string list) \<Rightarrow> string list \<Rightarrow> path \<Rightarrow> (path \<times> string list \<times> string list) list" where
  "os_walk fs prune cs dirpath =
     (case walk fs max_links [] cs of
        Inl _ \<Rightarrow> []
      | Inr (cur, k) \<Rightarrow>
          (case node_at fs cur of None \<Rightarrow> [] | Some n \<Rightarrow> walk_tree fs prune k cur dirpath n))"

text \<open>
  With \<^verbatim>\<open>followlinks=True\<close> linked directories are entered too; the kernel's limit on the links of one
  path name bounds the depth.
\<close>

function walk_links ::
  "node \<Rightarrow> nat \<Rightarrow> string list \<Rightarrow> path \<Rightarrow> node \<Rightarrow> (path \<times> string list \<times> string list) list" where
  "walk_links fs k cur dirpath (Dir es) =
     (dirpath, dir_names fs k cur es, file_names fs k cur es) #
     concat (map (\<lambda>(name, n).
         case n of
           Dir _ \<Rightarrow> walk_links fs k (cur @ [name]) (joinpath dirpath (Path [] [name])) n
         | File _ _ \<Rightarrow> []
         | Link _ \<Rightarrow>
             (case walk fs k cur [name] of
                Inl _ \<Rightarrow> []
              | Inr (cur', k') \<Rightarrow>
                  (if k' < k
                   then (case node_at fs cur' of
                           None \<Rightarrow> []
                         | Some m \<Rightarrow> walk_links fs k' cur' (joinpath dirpath (Path [] [name])) m)
                   else []))) es)"
| "walk_links fs k cur dirpath (File _ _) = []"
| "walk_links fs k cur dirpath (Link _) = []"
  by pat_completeness auto
termination
proof (relation "measures [\<lambda>(fs, k, cur, dirpath, n). k, \<lambda>(fs, k, cur, dirpath, n). size n]", goal_cases)
  case (2 fs k cur dirpath es e name n es')
  then show ?case using size_list_estimation' [of e es "size n" "size_prod (\<lambda>_. 0) size"] by fastforce
qed auto

definition os_walk_links :: "node \<Rightarrow> string list \<Rightarrow> path \<Rightarrow> (path \<times> string list \<times> string list) list" where
  "os_walk_links fs cs dirpath =
     (case walk fs max_links [] cs of
        Inl _ \<Rightarrow> []
      | Inr (cur, k) \<Rightarrow>
          (case node_at fs cur of None \<Rightarrow> [] | Some n \<Rightarrow> walk_links fs k cur dirpath n))"

end
