(* ===== verification/PyArgparse.thy ===== *)
theory PyArgparse
  imports PyIO PyFloat
begin

text \<open>
  The part of Python's \<^verbatim>\<open>argparse\<close> that the scripts use: options with one value, with a list of
  values (\<^verbatim>\<open>nargs="+"\<close> and \<^verbatim>\<open>nargs="*"\<close>), repeated (\<^verbatim>\<open>append\<close>), flags, help, choices, conversions,
  required options, one positional with \<^verbatim>\<open>nargs="*"\<close>, \<^verbatim>\<open>--opt=value\<close>, unambiguous abbreviations,
  \<^verbatim>\<open>--\<close>, and \<^verbatim>\<open>parse_known_args\<close>.  The strings are first classified, all of them, and then consumed
  from left to right.  An error prints a message and ends the script with exit status 2; the usage
  text and clusters of one-letter options are not modelled.
\<close>

datatype argval = ANone | AFlag bool | AStr string | APath path | AFloat pyfloat | AInt int | AList "argval list"

datatype conv = ToStr | ToPath | ToFloat | ToInt

datatype action = Store | StoreList bool | Append | StoreTrue | Help

record opt =
  o_names :: "string list"
  o_dest :: string
  o_action :: action
  o_conv :: conv
  o_default :: argval
  o_required :: bool
  o_choices :: "string list"

definition store_opt :: "string \<Rightarrow> string \<Rightarrow> conv \<Rightarrow> argval \<Rightarrow> opt" where
  "store_opt name dest c d = \<lparr>o_names = [name], o_dest = dest, o_action = Store, o_conv = c, o_default = d,
     o_required = False, o_choices = []\<rparr>"

definition flag_opt :: "string \<Rightarrow> string \<Rightarrow> opt" where
  "flag_opt name dest = (store_opt name dest ToStr (AFlag False))\<lparr>o_action := StoreTrue\<rparr>"

definition help_opt :: opt where
  "help_opt = (store_opt ''--help'' ''help'' ToStr ANone)\<lparr>o_names := [''-h'', ''--help''], o_action := Help\<rparr>"

definition append_opt :: "string \<Rightarrow> string \<Rightarrow> conv \<Rightarrow> argval \<Rightarrow> opt" where
  "append_opt name dest c d = (store_opt name dest c d)\<lparr>o_action := Append\<rparr>"

section \<open>Classification\<close>

datatype tok = TOpt opt string "string option" | TUnknown string | TArg string | TDashes

definition find_option :: "opt list \<Rightarrow> string \<Rightarrow> opt option" where
  "find_option opts name = find (\<lambda>opt. name \<in> set (o_names opt)) opts"

definition option_names :: "opt list \<Rightarrow> (opt \<times> string) list" where
  "option_names opts = concat (map (\<lambda>opt. map (Pair opt) (o_names opt)) opts)"

text \<open>The options that a string may abbreviate.\<close>

definition long_matches :: "opt list \<Rightarrow> string \<Rightarrow> (opt \<times> string) list" where
  "long_matches opts prefix_str = filter (\<lambda>(_, name). startswith name prefix_str) (option_names opts)"

definition short_matches :: "opt list \<Rightarrow> string \<Rightarrow> (opt \<times> string) list" where
  "short_matches opts arg =
     filter (\<lambda>(_, name). name = take 2 arg \<or> startswith name arg) (option_names opts)"

text \<open>The pattern \<^verbatim>\<open>^-\d+$|^-\d*\.\d+$\<close>.\<close>

definition looks_negative :: "string \<Rightarrow> bool" where
  "looks_negative s =
     (case s of
        c # t \<Rightarrow> c = CHR ''-'' \<and>
          ((t \<noteq> [] \<and> list_all is_digit t) \<or>
           (let fr = dropWhile is_digit t
            in (case fr of d # ds \<Rightarrow> d = CHR ''.'' \<and> ds \<noteq> [] \<and> list_all is_digit ds | [] \<Rightarrow> False)))
      | [] \<Rightarrow> False)"

definition unknown_or_arg :: "string \<Rightarrow> tok" where
  "unknown_or_arg arg =
     (if looks_negative arg \<or> CHR '' '' \<in> set arg then TArg arg else TUnknown arg)"

definition abbreviation_of :: "opt list \<Rightarrow> string \<Rightarrow> exn + tok" where
  "abbreviation_of opts arg =
     (let long = startswith arg ''--'';
          (pre, post) = split_first CHR ''='' arg;
          explicit = (if CHR ''='' \<in> set arg then Some post else None)
      in case (if long then long_matches opts (if CHR ''='' \<in> set arg then pre else arg)
               else short_matches opts arg) of
           [] \<Rightarrow> Inr (unknown_or_arg arg)
         | [(opt, name)] \<Rightarrow>
             Inr (TOpt opt name
               (if long then explicit else if name = take 2 arg then Some (drop 2 arg) else None))
         | _ \<Rightarrow> Inl (ValueError (''ambiguous option: '' @ arg)))"

definition classify :: "opt list \<Rightarrow> string \<Rightarrow> exn + tok" where
  "classify opts arg =
     (if arg = [] \<or> hd arg \<noteq> CHR ''-'' then Inr (TArg arg)
      else (case find_option opts arg of
          Some opt \<Rightarrow> Inr (TOpt opt arg None)
        | None \<Rightarrow>
            (if length arg = 1 then Inr (TArg arg)
             else if CHR ''='' \<in> set arg \<and> find_option opts (fst (split_first CHR ''='' arg)) \<noteq> None
             then (case split_first CHR ''='' arg of (name, val) \<Rightarrow>
                     Inr (TOpt (the (find_option opts name)) name (Some val)))
             else abbreviation_of opts arg)))"

fun classify_all :: "opt list \<Rightarrow> string list \<Rightarrow> exn + tok list" where
  "classify_all opts [] = Inr []"
| "classify_all opts (a # as) =
     (if a = ''--'' then Inr (TDashes # map TArg as)
      else bindE (classify opts a) (\<lambda>t. bindE (classify_all opts as) (\<lambda>ts. Inr (t # ts))))"

section \<open>Consumption\<close>

definition convert :: "conv \<Rightarrow> string \<Rightarrow> exn + argval" where
  "convert c s =
     (case c of
        ToStr \<Rightarrow> Inr (AStr s)
      | ToPath \<Rightarrow> Inr (APath (path_of s))
      | ToFloat \<Rightarrow> (case parse_float s of None \<Rightarrow> Inl (ValueError (''invalid float value: '' @ repr_str s))
                  | Some x \<Rightarrow> Inr (AFloat x))
      | ToInt \<Rightarrow> (case parse_int s of None \<Rightarrow> Inl (ValueError (''invalid int value: '' @ repr_str s))
                | Some i \<Rightarrow> Inr (AInt i)))"

definition option_value :: "opt \<Rightarrow> string \<Rightarrow> exn + argval" where
  "option_value opt s =
     bindE (convert (o_conv opt) s) (\<lambda>v.
       if o_choices opt \<noteq> [] \<and> s \<notin> set (o_choices opt)
       then Inl (ValueError (''invalid choice: '' @ repr_str s)) else Inr v)"

type_synonym namespace = "argval dict"

definition append_value :: "namespace \<Rightarrow> string \<Rightarrow> argval \<Rightarrow> namespace" where
  "append_value ns dest v =
     dict_set ns dest (AList ((case map_of ns dest of Some (AList vs) \<Rightarrow> vs | _ \<Rightarrow> []) @ [v]))"

fun is_targ :: "tok \<Rightarrow> bool" where
  "is_targ (TArg _) = True"
| "is_targ _ = False"

fun is_plain :: "tok \<Rightarrow> bool" where
  "is_plain (TArg _) = True"
| "is_plain TDashes = True"
| "is_plain _ = False"

fun tok_str :: "tok \<Rightarrow> string" where
  "tok_str (TArg s) = s"
| "tok_str (TUnknown s) = s"
| "tok_str (TOpt _ s _) = s"
| "tok_str TDashes = ''--''"

text \<open>An option at the head: how many of the following strings it takes, and what it stores.  Help
  is the exception \<^verbatim>\<open>SystemExit(0)\<close>.\<close>

definition take_option ::
  "opt \<Rightarrow> string option \<Rightarrow> tok list \<Rightarrow> namespace \<Rightarrow> exn + namespace \<times> tok list" where
  "take_option opt explicit rest ns =
     (case o_action opt of
        Help \<Rightarrow> (if explicit = None then Inl (SystemExit 0) else Inl (ValueError ''ignored explicit argument''))
      | StoreTrue \<Rightarrow>
          (if explicit = None then Inr (dict_set ns (o_dest opt) (AFlag True), rest)
           else Inl (ValueError ''ignored explicit argument''))
      | StoreList nonempty \<Rightarrow>
          (let strs = (case explicit of Some e \<Rightarrow> [e] | None \<Rightarrow> map tok_str (takeWhile is_targ rest));
               rest' = (case explicit of Some _ \<Rightarrow> rest | None \<Rightarrow> dropWhile is_targ rest)
           in if nonempty \<and> strs = [] then Inl (ValueError ''expected at least one argument'')
              else bindE (mapE (option_value opt) strs) (\<lambda>vs. Inr (dict_set ns (o_dest opt) (AList vs), rest')))
      | act \<Rightarrow>
          (case (case explicit of Some e \<Rightarrow> Some (e, rest)
                 | None \<Rightarrow> (case rest of TArg s # ts \<Rightarrow> Some (s, ts) | _ \<Rightarrow> None)) of
             None \<Rightarrow> Inl (ValueError ''expected one argument'')
           | Some (s, rest') \<Rightarrow>
               bindE (option_value opt s) (\<lambda>v.
                 Inr (if act = Append then append_value ns (o_dest opt) v else dict_set ns (o_dest opt) v, rest'))))"

lemma take_option_length: "take_option opt e rest ns = Inr (ns', rest') \<Longrightarrow> length rest' \<le> length rest"
  by (auto simp: take_option_def Let_def bindE_Inr length_dropWhile_le
      split: action.splits option.splits list.splits tok.splits if_splits)

text \<open>The positional is taken by the first run of plain strings.\<close>

function consume ::
  "string option \<Rightarrow> tok list \<Rightarrow> namespace \<Rightarrow> string list \<Rightarrow> string list \<Rightarrow>
   exn + namespace \<times> string list \<times> string list" where
  "consume pos [] ns seen extras = Inr (ns, seen, extras)"
| "consume pos (TOpt opt name explicit # ts) ns seen extras =
     (case take_option opt explicit ts ns of
        Inl e \<Rightarrow> Inl e
      | Inr (ns', ts') \<Rightarrow> consume pos ts' ns' (seen @ [o_dest opt]) extras)"
| "consume pos (TUnknown s # ts) ns seen extras = consume pos ts ns seen (extras @ [s])"
| "consume pos (TArg s # ts) ns seen extras =
     (let run = TArg s # takeWhile is_plain ts; rest = dropWhile is_plain ts
      in case pos of
           Some dest \<Rightarrow>
             consume None rest (dict_set ns dest (AList (map AStr (map tok_str (remove1 TDashes run))))) seen extras
         | None \<Rightarrow> consume None rest ns seen (extras @ map tok_str run))"
| "consume pos (TDashes # ts) ns seen extras =
     (let run = TDashes # takeWhile is_plain ts; rest = dropWhile is_plain ts
      in case pos of
           Some dest \<Rightarrow>
             consume None rest (dict_set ns dest (AList (map AStr (map tok_str (remove1 TDashes run))))) seen extras
         | None \<Rightarrow> consume None rest ns seen (extras @ map tok_str run))"
  by pat_completeness auto
termination
proof (relation "measure (\<lambda>(pos, ts, ns, seen, extras). length ts)", goal_cases)
  case (2 pos opt name explicit ts ns seen extras y ns' ts')
  then show ?case using take_option_length [of opt explicit ts ns ns' ts'] by simp
qed (auto simp: less_Suc_eq_le length_dropWhile_le)

definition defaults :: "opt list \<Rightarrow> string option \<Rightarrow> namespace" where
  "defaults opts pos =
     foldl (\<lambda>ns opt. if o_action opt = Help then ns else dict_set ns (o_dest opt) (o_default opt))
       (case pos of None \<Rightarrow> [] | Some dest \<Rightarrow> [(dest, AList [])]) opts"

definition missing_options :: "opt list \<Rightarrow> string list \<Rightarrow> string list" where
  "missing_options opts seen =
     map (\<lambda>opt. join ''/'' (o_names opt)) (filter (\<lambda>opt. o_required opt \<and> o_dest opt \<notin> set seen) opts)"

definition parse_known :: "opt list \<Rightarrow> string option \<Rightarrow> string list \<Rightarrow> exn + namespace \<times> string list" where
  "parse_known opts pos argv =
     bindE (classify_all opts argv) (\<lambda>ts.
     bindE (consume pos ts (defaults opts pos) [] []) (\<lambda>(ns, seen, extras).
       if missing_options opts seen \<noteq> []
       then Inl (ValueError (''the following arguments are required: '' @ join '', '' (missing_options opts seen)))
       else Inr (ns, extras)))"

definition parse_all :: "opt list \<Rightarrow> string option \<Rightarrow> string list \<Rightarrow> exn + namespace" where
  "parse_all opts pos argv =
     bindE (parse_known opts pos argv) (\<lambda>(ns, extras).
       if extras \<noteq> [] then Inl (ValueError (''unrecognized arguments: '' @ join '' '' extras)) else Inr ns)"

text \<open>\<^verbatim>\<open>ArgumentParser.error\<close>\<close>

definition or_usage_error :: "exn + 'a \<Rightarrow> 'a io" where
  "or_usage_error r =
     (case r of
        Inr x \<Rightarrow> retM x
      | Inl (ValueError m) \<Rightarrow> bindM (print_err (''error: '' @ m)) (\<lambda>_. sys_exit 2)
      | Inl e \<Rightarrow> raiseM e)"

definition parse_args :: "opt list \<Rightarrow> string option \<Rightarrow> string list \<Rightarrow> namespace io" where
  "parse_args opts pos argv = or_usage_error (parse_all opts pos argv)"

definition parse_known_args :: "opt list \<Rightarrow> string list \<Rightarrow> (namespace \<times> string list) io" where
  "parse_known_args opts argv = or_usage_error (parse_known opts None argv)"

lemma parse_args_Inr: "parse_args opts pos argv w = (Inr ns, w') \<longleftrightarrow> parse_all opts pos argv = Inr ns \<and> w' = w"
  by (auto simp: parse_args_def or_usage_error_def bindM_Inr split: sum.splits exn.splits)

text \<open>Reading the result.\<close>

fun get_path :: "namespace \<Rightarrow> string \<Rightarrow> path option" where
  "get_path ns dest = (case map_of ns dest of Some (APath p) \<Rightarrow> Some p | _ \<Rightarrow> None)"

fun get_flag :: "namespace \<Rightarrow> string \<Rightarrow> bool" where
  "get_flag ns dest = (case map_of ns dest of Some (AFlag b) \<Rightarrow> b | _ \<Rightarrow> False)"

fun get_str :: "namespace \<Rightarrow> string \<Rightarrow> string" where
  "get_str ns dest = (case map_of ns dest of Some (AStr s) \<Rightarrow> s | _ \<Rightarrow> [])"

fun get_float :: "namespace \<Rightarrow> string \<Rightarrow> pyfloat" where
  "get_float ns dest = (case map_of ns dest of Some (AFloat x) \<Rightarrow> x | _ \<Rightarrow> NaN)"

fun get_int :: "namespace \<Rightarrow> string \<Rightarrow> int" where
  "get_int ns dest = (case map_of ns dest of Some (AInt i) \<Rightarrow> i | _ \<Rightarrow> 0)"

definition get_list :: "namespace \<Rightarrow> string \<Rightarrow> argval list" where
  "get_list ns dest = (case map_of ns dest of Some (AList vs) \<Rightarrow> vs | _ \<Rightarrow> [])"

definition get_strs :: "namespace \<Rightarrow> string \<Rightarrow> string list" where
  "get_strs ns dest = concat (map (\<lambda>v. case v of AStr s \<Rightarrow> [s] | _ \<Rightarrow> []) (get_list ns dest))"

definition get_paths :: "namespace \<Rightarrow> string \<Rightarrow> path list" where
  "get_paths ns dest = concat (map (\<lambda>v. case v of APath p \<Rightarrow> [p] | _ \<Rightarrow> []) (get_list ns dest))"

end
