(* ===== verification/ListExternalMounts.thy ===== *)
theory ListExternalMounts
  imports PyFiles PyArgparse
begin

text \<open>
  \<^verbatim>\<open>src/.devkit/scripts/list_external_mounts.py\<close>: the external paths that symbolic links of a
  directory tree point to, and the minimal set of directories that holds them.  The functions only
  read the file system; a set of paths is a duplicate-free list.  Both loops of the code are
  unbounded; they end because the kernel follows at most \<open>max_links\<close> links of a path name.
\<close>

section \<open>Links\<close>

text \<open>The links followed when a name is resolved; \<open>max_links + 1\<close> stands for a name that does not
  resolve.\<close>

definition links_used :: "node \<Rightarrow> string list \<Rightarrow> nat" where
  "links_used fs cs =
     (case walk fs max_links [] cs of Inl _ \<Rightarrow> Suc max_links | Inr (_, k) \<Rightarrow> max_links - k)"

definition link_target :: "path \<Rightarrow> string \<Rightarrow> path" where
  "link_target current_path target = joinpath (parent current_path) (path_of target)"

lemma walk_budget_shift:
  "walk fs k cur cs = Inr (cur', k') \<Longrightarrow> walk fs (k + d) cur cs = Inr (cur', k' + d)"
proof (induction fs k cur cs rule: walk.induct)
  case (2 fs k cur c cs)
  show ?case
  proof (cases "node_at fs cur")
    case (Some n)
    show ?thesis
    proof (cases n)
      case (Dir es)
      note n = Some [unfolded Dir]
      consider "c = [] \<or> c = ''.''" | "c = ''..''" | "c \<noteq> []" "c \<noteq> ''.''" "c \<noteq> ''..''" by blast
      then show ?thesis
      proof cases
        case 1
        then show ?thesis using "2.IH"(1) [OF n refl] "2.prems" n by simp
      next
        case 2
        then show ?thesis using "2.IH"(2) [OF n refl] "2.prems" n by simp
      next
        case 3
        then have c: "\<not> (c = [] \<or> c = ''.'')" by simp
        show ?thesis
        proof (cases "map_of es c")
          case (Some m)
          show ?thesis
          proof (cases m)
            case (Link t)
            have k: "k \<noteq> 0" using "2.prems" n 3 Some Link by (simp split: if_splits)
            then have "Suc (k + d) - 1 = Suc (k - 1 + d)" by simp
            then show ?thesis
              using "2.IH"(5) [OF n refl c 3(3) Some Link k] "2.prems" n 3 Some Link k by simp
          next
            case (Dir es')
            then show ?thesis using "2.IH"(3) [OF n refl c 3(3) Some Dir] "2.prems" n 3 Some by simp
          next
            case (File x y)
            then show ?thesis using "2.IH"(4) [OF n refl c 3(3) Some File] "2.prems" n 3 Some by simp
          qed
        qed (use "2.prems" n 3 in simp)
      qed
    qed (use "2.prems" Some in simp_all)
  qed (use "2.prems" in simp)
qed simp

lemma node_at_butlast:
  assumes "node_at fs cur = Some (Dir es)"
  shows "\<exists>es'. node_at fs (butlast cur) = Some (Dir es')"
proof (cases "cur = []")
  case False
  then have "node_at fs (butlast cur @ [last cur]) = Some (Dir es)" using assms by simp
  then show ?thesis
    unfolding node_at_append by (cases "node_at fs (butlast cur)") (auto split: node.splits elim: node_at.elims)
qed (use assms in simp)

lemma stat_dotdot_no_link:
  assumes "cs \<noteq> []" "last cs \<in> {[], ''.'', ''..''}"
  shows "stat_from fs k cur cs \<noteq> Inr (Link t)"
proof -
  have "walk fs k cur cs = (case walk fs k cur (butlast cs) of Inl e \<Rightarrow> Inl e
      | Inr (cur', k') \<Rightarrow> walk fs k' cur' [last cs])"
    using walk_append [of fs k cur "butlast cs" "[last cs]"] assms(1) by (metis append_butlast_last_id)
  then show ?thesis
    using node_at_butlast [of fs] assms(2)
    by (fastforce simp: stat_from_def split: sum.splits option.splits node.splits)
qed

lemma slash_root_empty: "slash_root t = [] \<longleftrightarrow> \<not> startswith t ''/''"
  by (cases t) (auto simp: slash_root_def leading_slashes_def)

lemma link_target_parts:
  "p_parts (link_target p t) =
     (if startswith t ''/'' then components t else butlast (p_parts p) @ components t)"
  by (simp add: link_target_def joinpath_def is_absolute_def path_of_def parent_def slash_root_empty)

lemma readlink_resolves:
  assumes "readlink_at fs cs = Some t"
  obtains cur k es where "walk fs max_links [] (butlast cs) = Inr (cur, k)"
    "node_at fs cur = Some (Dir es)" "map_of es (last cs) = Some (Link t)" "cs \<noteq> []" "last cs \<notin> {[], ''.'', ''..''}"
proof -
  have cs: "cs \<noteq> []" and l: "lstat fs cs = Inr (Link t)"
    using assms by (auto simp: readlink_at_def split: if_splits sum.splits node.splits)
  have dd: "last cs \<notin> {[], ''.'', ''..''}"
    using l stat_dotdot_no_link [OF cs] cs by (auto simp: lstat_def split: if_splits)
  then show thesis
    using l cs that
    by (auto simp: lstat_def lookup_last_def split: sum.splits option.splits node.splits)
qed

text \<open>Following a link takes one link less than resolving its name.\<close>

lemma link_fewer:
  assumes "readlink_at fs cs = Some t"
    and ex: "exists_at fs tcs" and tcs: "tcs = (if startswith t ''/'' then components t else butlast cs @ components t)"
  shows "links_used fs tcs < links_used fs cs"
proof -
  obtain cur k es where w: "walk fs max_links [] (butlast cs) = Inr (cur, k)"
    and d: "node_at fs cur = Some (Dir es)" "map_of es (last cs) = Some (Link t)" "cs \<noteq> []" "last cs \<notin> {[], ''.'', ''..''}"
    using readlink_resolves [OF assms(1)] .
  have k: "k \<le> max_links" by (rule walk_budget [OF w])
  obtain cur' k' where t: "walk fs max_links [] tcs = Inr (cur', k')"
    using ex by (auto simp: exists_at_def stat_def stat_from_def split: sum.splits)
  have k': "k' \<le> max_links" by (rule walk_budget [OF t])
  have lu: "links_used fs tcs = max_links - k'" by (simp add: links_used_def t)
  let ?base = "if startswith t ''/'' then [] else cur"
  have cs: "walk fs max_links [] cs = (if k = 0 then Inl ELOOP else walk fs (k - 1) ?base (components t))"
    using walk_append [of fs max_links "[]" "butlast cs" "[last cs]"] d w by simp
  show ?thesis
  proof (cases "\<exists>c j. walk fs max_links [] cs = Inr (c, j)")
    case False
    then have "links_used fs cs = Suc max_links"
      unfolding links_used_def by (cases "walk fs max_links [] cs") auto
    then show ?thesis using lu by simp
  next
    case True
    then obtain c j where cj: "walk fs (k - 1) ?base (components t) = Inr (c, j)" "k \<noteq> 0"
      "walk fs max_links [] cs = Inr (c, j)" using cs by (auto split: if_splits)
    have j: "j \<le> k - 1" by (rule walk_budget [OF cj(1)])
    have "k' > j"
    proof (cases "startswith t ''/''")
      case True
      then have "walk fs max_links [] tcs = Inr (c, j + (max_links - (k - 1)))"
        using walk_budget_shift [OF cj(1), of "max_links - (k - 1)"] k cj(2) by (simp add: tcs)
      then show ?thesis using t k cj(2) by simp
    next
      case False
      then have "walk fs max_links [] tcs = Inr (c, j + 1)"
        using walk_budget_shift [OF cj(1), of 1] cj(2) w by (simp add: tcs walk_append)
      then show ?thesis using t by simp
    qed
    then show ?thesis using lu cj(3) k' by (simp add: links_used_def)
  qed
qed


section \<open>The chain of one link\<close>

text \<open>\<^verbatim>\<open>os.path.normpath(common) != str(scan_dir_abs)\<close>.  The paths of a chain are absolute; for another
  path \<^verbatim>\<open>os.path.commonpath\<close> would be undefined.\<close>

definition is_external :: "path \<Rightarrow> path \<Rightarrow> bool" where
  "is_external scan_dir_abs abs_target =
     (startswith (str_path abs_target) ''/'' \<and>
      normpath (commonpath (str_path scan_dir_abs) (normpath (str_path abs_target))) \<noteq> str_path scan_dir_abs)"

text \<open>The sets \<^verbatim>\<open>external_paths\<close> and the list \<^verbatim>\<open>worklist\<close>, which the code shares by reference.\<close>

type_synonym scan = "path list \<times> path list"

definition add_external :: "node \<Rightarrow> path \<Rightarrow> path \<Rightarrow> scan \<Rightarrow> scan" where
  "add_external fs scan_dir_abs abs_target st =
     (case st of (external_paths, worklist) \<Rightarrow>
        if is_external scan_dir_abs abs_target then
          (let norm_target = path_of (normpath (str_path abs_target))
           in if norm_target \<notin> set external_paths
              then (external_paths @ [norm_target],
                    if is_dir_at fs (p_parts norm_target) then worklist @ [norm_target] else worklist)
              else st)
        else st)"

function process_symlink :: "node \<Rightarrow> path \<Rightarrow> path list \<Rightarrow> path \<Rightarrow> scan \<Rightarrow> scan" where
  "process_symlink fs scan_dir_abs visited_in_chain current_path st =
     (case readlink_at fs (p_parts current_path) of
        None \<Rightarrow> st
      | Some target \<Rightarrow>
          (if current_path \<in> set visited_in_chain then st
           else (let abs_target = link_target current_path target
                 in if \<not> exists_at fs (p_parts abs_target) then st
                    else process_symlink fs scan_dir_abs (current_path # visited_in_chain) abs_target
                           (add_external fs scan_dir_abs abs_target st))))"
  by pat_completeness auto
termination
proof (relation "measure (\<lambda>(fs, scan, visited, p, st). links_used fs (p_parts p))", goal_cases)
  case (2 fs scan visited p st target abs_target)
  then show ?case using link_fewer [OF 2(1) _ refl] by (simp add: link_target_parts)
qed simp

declare process_symlink.simps [simp del]

section \<open>The scan\<close>

definition prune_venv :: "string list \<Rightarrow> string list" where
  "prune_venv dirs = remove1 ''.venv'' dirs"

definition scan_entry :: "node \<Rightarrow> path \<Rightarrow> path \<Rightarrow> scan \<Rightarrow> string \<Rightarrow> scan" where
  "scan_entry fs scan_dir_abs root_path st name =
     (let path = joinpath root_path (Path [] [name])
      in if is_symlink_at fs (p_parts path) \<and> \<not> startswith name ''bazel-''
         then process_symlink fs scan_dir_abs [] path st else st)"

definition scan_tree :: "node \<Rightarrow> path \<Rightarrow> path \<Rightarrow> scan \<Rightarrow> scan" where
  "scan_tree fs scan_dir_abs current_dir st =
     foldl (\<lambda>st (root_path, dirs, files). foldl (scan_entry fs scan_dir_abs root_path) st (dirs @ files))
       st (os_walk fs prune_venv (p_parts current_dir) current_dir)"

text \<open>The paths that the loop can scan: absolute, normalised, and directories.  There are finitely
  many of them, since a path name is resolved with a bounded number of links.\<close>

definition regular :: "path \<Rightarrow> bool" where
  "regular p = (path_wf p \<and> is_absolute p \<and> no_dotdot (p_parts p))"

definition regular_dirs :: "node \<Rightarrow> path set" where
  "regular_dirs fs = {p. regular p \<and> is_dir_at fs (p_parts p)}"

definition names_below :: "node \<Rightarrow> nat \<Rightarrow> string list \<Rightarrow> string list set" where
  "names_below fs k cur =
     {cs. list_all plain cs \<and> no_dotdot cs \<and> (\<exists>r. walk fs k cur cs = Inr r)}"

lemma node_at_child_size:
  assumes "node_at fs cur = Some (Dir es)" "map_of es c = Some n"
  shows "node_at fs (cur @ [c]) = Some n" "size n < size (Dir es)"
proof -
  show "node_at fs (cur @ [c]) = Some n" using assms by (simp add: node_at_append)
  have "(c, n) \<in> set es" using assms(2) by (rule map_of_SomeD)
  then show "size n < size (Dir es)"
    using size_list_estimation' [of "(c, n)" es "size n" "size_prod (\<lambda>_. 0) size"] by fastforce
qed

text \<open>The names that may follow an entry of a directory.\<close>

definition names_after :: "node \<Rightarrow> nat \<Rightarrow> string list \<Rightarrow> string \<Rightarrow> node \<Rightarrow> string list set" where
  "names_after fs k cur c n =
     (case n of Link t \<Rightarrow>
        (case walk fs (k - 1) (if startswith t ''/'' then [] else cur) (components t) of
           Inl _ \<Rightarrow> {} | Inr (cur', k') \<Rightarrow> (if 0 < k then names_below fs k' cur' else {}))
      | _ \<Rightarrow> names_below fs k (cur @ [c]))"

lemma names_below_cons:
  assumes "c # cs \<in> names_below fs k cur"
  obtains es n where "node_at fs cur = Some (Dir es)" "map_of es c = Some n" "cs \<in> names_after fs k cur c n"
proof -
  have c: "list_all plain (c # cs)" "no_dotdot (c # cs)" "\<exists>r. walk fs k cur (c # cs) = Inr r"
    using assms by (simp_all add: names_below_def)
  from c(3) obtain es where es: "node_at fs cur = Some (Dir es)" by (auto split: option.splits node.splits)
  from c es obtain n where n: "map_of es c = Some n"
    by (auto simp: plain_def no_dotdot_def split: option.splits)
  have "cs \<in> names_after fs k cur c n"
    using c es n
    by (auto simp: names_after_def names_below_def plain_def no_dotdot_def walk_append
        split: node.splits sum.splits if_splits)
  then show thesis by (rule that [OF es n])
qed

lemma finite_names_below: "finite (names_below fs k cur)"
proof (induction "(k, case node_at fs cur of None \<Rightarrow> 0 | Some n \<Rightarrow> size n)" arbitrary: k cur
    rule: wf_induct_rule [OF wf_lex_prod [OF wf_less wf_less]])
  case (1 k cur)
  show ?case
  proof (cases "\<exists>es. node_at fs cur = Some (Dir es)")
    case False
    then have "cs = []" if "cs \<in> names_below fs k cur" for cs
      using that by (cases cs) (blast elim: names_below_cons)+
    then have "names_below fs k cur \<subseteq> {[]}" by blast
    then show ?thesis by (rule finite_subset) simp
  next
    case True
    then obtain es where es: "node_at fs cur = Some (Dir es)" by blast
    have fin: "finite (names_after fs k cur c n)" if n: "map_of es c = Some n" for c n
    proof (cases n)
      case (Link t)
      have "finite (names_below fs k' cur')" if "walk fs (k - 1) cur0 cs = Inr (cur', k')" "0 < k" for cur0 cs cur' k'
      proof -
        have "k' < k" using walk_budget [OF that(1)] that(2) by simp
        then show ?thesis by (intro 1) simp
      qed
      then show ?thesis by (auto simp: names_after_def Link split: sum.splits)
    qed (use 1 node_at_child_size [OF es n] es in \<open>auto simp: names_after_def\<close>)
    have "cs \<in> insert [] (\<Union>(c, n)\<in>set es. if map_of es c = Some n then Cons c ` names_after fs k cur c n else {})"
      if cs: "cs \<in> names_below fs k cur" for cs
    proof (cases cs)
      case (Cons c cs')
      obtain es' n where n: "node_at fs cur = Some (Dir es')" "map_of es' c = Some n" "cs' \<in> names_after fs k cur c n"
        using names_below_cons [OF cs [unfolded Cons]] by blast
      then have "map_of es c = Some n" using es by simp
      then show ?thesis unfolding Cons using n(3) map_of_SomeD by fastforce
    qed simp
    then have "names_below fs k cur \<subseteq>
        insert [] (\<Union>(c, n)\<in>set es. if map_of es c = Some n then Cons c ` names_after fs k cur c n else {})" by blast
    moreover have "finite (insert [] (\<Union>(c, n)\<in>set es. if map_of es c = Some n then Cons c ` names_after fs k cur c n else {}))"
      using fin by auto
    ultimately show ?thesis by (rule finite_subset)
  qed
qed

lemma finite_regular_dirs: "finite (regular_dirs fs)"
proof -
  have "regular_dirs fs \<subseteq> (\<lambda>(r, cs). Path r cs) ` ({[], ''/'', ''//''} \<times> names_below fs max_links [])"
  proof
    fix p
    assume "p \<in> regular_dirs fs"
    then have "p_root p \<in> {[], ''/'', ''//''}" "p_parts p \<in> names_below fs max_links []"
      by (auto simp: regular_dirs_def regular_def path_wf_def names_below_def is_dir_at_def stat_def stat_from_def
          split: sum.splits)
    then show "p \<in> (\<lambda>(r, cs). Path r cs) ` ({[], ''/'', ''//''} \<times> names_below fs max_links [])"
      by (intro image_eqI [of _ _ "(p_root p, p_parts p)"]) auto
  qed
  then show ?thesis by (rule finite_subset) (simp add: finite_names_below)
qed

lemma path_of_normpath:
  assumes "startswith s ''/''"
  shows "path_of (normpath s) = Path (slash_root s) (norm_comps True (split_on CHR ''/'' s))"
    and "regular (path_of (normpath s))"
proof -
  let ?cs = "norm_comps True (split_on CHR ''/'' s)" and ?r = "slash_root s"
  have r: "?r \<noteq> []" using assms by (simp add: slash_root_empty)
  then have r2: "?r \<in> {''/'', ''//''}" by (simp add: slash_root_def split: if_splits)
  have cs: "list_all plain ?cs" "no_dotdot ?cs"
    using norm_comps_abs [of "split_on CHR ''/'' s"] split_on_no_sep by blast+
  have "normpath s = str_path (Path ?r ?cs)"
    using r by (simp add: normpath_def str_path_def Let_def)
  then show eq: "path_of (normpath s) = Path ?r ?cs"
    using path_of_str_path [of "Path ?r ?cs"] r2 cs(1) by (simp add: path_wf_def)
  show "regular (path_of (normpath s))"
    unfolding eq using r2 cs by (auto simp: regular_def path_wf_def is_absolute_def)
qed

text \<open>What the scan adds.\<close>

lemma add_external_grows:
  assumes "add_external fs scan t (ext, work) = (ext', work')"
  shows "\<exists>new. work' = work @ new \<and> list_all regular new"
  using assms path_of_normpath(2) [of "str_path t"]
  by (auto simp: add_external_def is_external_def Let_def split: if_splits)

lemma process_symlink_grows:
  assumes "process_symlink fs scan visited p (ext, work) = (ext', work')"
  shows "\<exists>new. work' = work @ new \<and> list_all regular new"
  using assms
proof (induction fs scan visited p "(ext, work)" arbitrary: ext work rule: process_symlink.induct)
  case (1 fs scan visited p ext work)
  show ?case
  proof (cases "\<exists>t. readlink_at fs (p_parts p) = Some t \<and> p \<notin> set visited \<and> exists_at fs (p_parts (link_target p t))")
    case True
    then obtain t where t: "readlink_at fs (p_parts p) = Some t" "p \<notin> set visited"
      "exists_at fs (p_parts (link_target p t))" by blast
    obtain ext1 work1 where a: "add_external fs scan (link_target p t) (ext, work) = (ext1, work1)" by fastforce
    have "process_symlink fs scan (p # visited) (link_target p t) (ext1, work1) = (ext', work')"
      using 1(2) t by (subst (asm) process_symlink.simps) (simp add: a)
    with 1(1) [OF t(1,2) refl] t(3) a obtain new where "work' = work1 @ new" "list_all regular new" by auto
    then show ?thesis using add_external_grows [OF a] by auto
  next
    case False
    then have "work' = work"
      using 1(2) by (subst (asm) process_symlink.simps) (auto simp: Let_def split: option.splits if_splits)
    then show ?thesis by simp
  qed
qed

lemma scan_tree_grows:
  assumes "scan_tree fs scan d (ext, work) = (ext', work')"
  shows "\<exists>new. work' = work @ new \<and> list_all regular new"
proof -
  define grows where "grows = (\<lambda>(st :: scan) (st' :: scan). \<exists>new. snd st' = snd st @ new \<and> list_all regular (new :: path list))"
  have refl: "grows st st" and trans: "grows st st1 \<Longrightarrow> grows st1 st2 \<Longrightarrow> grows st st2" for st st1 st2 :: scan
    by (auto simp: grows_def)
  have entry: "grows st (scan_entry fs scan root st name)" for st root name
    using process_symlink_grows [of fs scan "[]" "joinpath root (Path [] [name])" "fst st" "snd st"] refl
    by (auto simp: scan_entry_def Let_def grows_def) (metis prod.collapse)
  have entries: "grows st (foldl (scan_entry fs scan root) st names)" for st root names
  proof (induction names arbitrary: st)
    case (Cons name names)
    show ?case unfolding foldl.simps by (rule trans [OF entry Cons])
  qed (simp add: refl)
  have "grows st (foldl (\<lambda>st (root, dirs, files). foldl (scan_entry fs scan root) st (dirs @ files)) st ts)" for st ts
  proof (induction ts arbitrary: st)
    case (Cons x ts)
    show ?case
    proof (cases x)
      case (fields root dirs files)
      show ?thesis unfolding foldl.simps fields prod.case by (rule trans [OF entries Cons])
    qed
  qed (simp add: refl)
  then have "grows (ext, work) (scan_tree fs scan d (ext, work))" by (simp only: scan_tree_def)
  then show ?thesis using assms by (simp add: grows_def)
qed

lemma scan_tree_no_dir: "\<not> is_dir_at fs (p_parts d) \<Longrightarrow> scan_tree fs scan d st = st"
  by (auto simp: scan_tree_def os_walk_def is_dir_at_def stat_def stat_from_def split: sum.splits option.splits
      node.splits)

section \<open>The work list\<close>

function mounts_loop :: "node \<Rightarrow> path \<Rightarrow> path list \<Rightarrow> path list \<Rightarrow> path list \<Rightarrow> path list" where
  "mounts_loop fs scan_dir_abs [] scanned external_paths = external_paths"
| "mounts_loop fs scan_dir_abs (current_dir # worklist) scanned external_paths =
     (if current_dir \<in> set scanned then mounts_loop fs scan_dir_abs worklist scanned external_paths
      else (case scan_tree fs scan_dir_abs current_dir (external_paths, worklist) of
              (external_paths', worklist') \<Rightarrow>
                mounts_loop fs scan_dir_abs worklist' (current_dir # scanned) external_paths'))"
  by pat_completeness auto
termination
proof (relation "measures
    [\<lambda>(fs, scan, work, scanned, ext). length (filter (\<lambda>p. \<not> regular p) work),
     \<lambda>(fs, scan, work, scanned, ext). card (regular_dirs fs - set scanned),
     \<lambda>(fs, scan, work, scanned, ext). length work]", goal_cases)
  case (3 fs scan d work scanned ext ext' work')
  then have t: "scan_tree fs scan d (ext, work) = (ext', work')" and d: "d \<notin> set scanned" by simp_all
  obtain new where new: "work' = work @ new" "list_all regular new" using scan_tree_grows [OF t] by blast
  have irr: "filter (\<lambda>p. \<not> regular p) new = []" using new(2) by (simp add: filter_empty_conv list_all_iff)
  have sub: "regular_dirs fs - set (d # scanned) \<subseteq> regular_dirs fs - set scanned" by auto
  consider "\<not> regular d" | "d \<in> regular_dirs fs" | "regular d" "\<not> is_dir_at fs (p_parts d)"
    by (auto simp: regular_dirs_def)
  then show ?case
  proof cases
    case 2
    then have "regular_dirs fs - set (d # scanned) \<subset> regular_dirs fs - set scanned" using d by auto
    then have "card (regular_dirs fs - set (d # scanned)) < card (regular_dirs fs - set scanned)"
      by (intro psubset_card_mono) (simp_all add: finite_regular_dirs)
    then show ?thesis using irr new by (simp add: regular_dirs_def)
  next
    case 3
    then have "work' = work" using scan_tree_no_dir [of fs d scan "(ext, work)"] t by simp
    moreover have "card (regular_dirs fs - set (d # scanned)) \<le> card (regular_dirs fs - set scanned)"
      by (rule card_mono [OF _ sub]) (simp add: finite_regular_dirs)
    ultimately show ?thesis using 3 by auto
  qed (use irr new in simp)
qed auto

definition list_external_mounts :: "path \<Rightarrow> path list io" where
  "list_external_mounts scan_dir =
     bindM (path_resolve scan_dir) (\<lambda>scan_dir_abs.
       getM (\<lambda>w. mounts_loop (w_fs w) scan_dir_abs [scan_dir_abs] [] []))"

section \<open>Minimal paths\<close>

definition minimize_step :: "path list \<Rightarrow> path \<Rightarrow> path list" where
  "minimize_step minimal_paths p =
     (if \<exists>q\<in>set minimal_paths. is_relative_to p q then minimal_paths
      else filter (\<lambda>q. \<not> is_relative_to q p) minimal_paths @ [p])"

definition minimize_paths :: "path list \<Rightarrow> path list" where
  "minimize_paths paths = foldl minimize_step [] (sort_key path_key paths)"

text \<open>The union of the three sets that is minimised; \<^verbatim>\<open>set(existing_mounts)\<close> with the resolved paths.\<close>

definition get_minimal_mounts :: "path \<Rightarrow> path list \<Rightarrow> path list io" where
  "get_minimal_mounts root_dir existing_mounts =
     bindM (list_external_mounts root_dir) (\<lambda>symlink_paths.
     bindM (mapM path_resolve existing_mounts) (\<lambda>resolved.
     bindM (getM (\<lambda>w. is_symlink_at (w_fs w) (comps w root_dir))) (\<lambda>linked.
     bindM (if linked then bindM (path_resolve root_dir) (\<lambda>r. retM [r]) else retM []) (\<lambda>physical.
       retM (minimize_paths (remdups (symlink_paths @ existing_mounts @ resolved @ physical)))))))"

text \<open>A set of paths is iterated in the order of the set of strings.\<close>

definition set_order :: "path list \<Rightarrow> path list io" where
  "set_order ps = getM (\<lambda>w. map path_of (w_order w (map str_path ps)))"

definition mounts_parser :: "path \<Rightarrow> opt list" where
  "mounts_parser cwd =
     [help_opt, store_opt ''--root-dir'' ''root_dir'' ToPath (APath cwd),
      append_opt ''--mount'' ''existing_mounts'' ToPath (AList [])]"

definition list_mounts_main :: "string list \<Rightarrow> unit io" where
  "list_mounts_main argv =
     bindM (getM (\<lambda>w. Path ''/'' (w_cwd w))) (\<lambda>cwd.
     bindM (parse_args (mounts_parser cwd) None argv) (\<lambda>args.
     bindM (get_minimal_mounts (the (get_path args ''root_dir'')) (get_paths args ''existing_mounts'')) (\<lambda>mounts.
     bindM (set_order mounts) (\<lambda>ps.
       forM ps (\<lambda>p. print_out (str_path p))))))"

section \<open>The minimised set\<close>

text \<open>The loop keeps the topmost elements of a partial order, in whatever order it meets them.\<close>

locale subpaths =
  fixes below :: "'p \<Rightarrow> 'p \<Rightarrow> bool"
  assumes below_refl: "below p p"
    and below_trans: "below p q \<Longrightarrow> below q r \<Longrightarrow> below p r"
    and below_antisym: "below p q \<Longrightarrow> below q p \<Longrightarrow> p = q"
begin

definition topmost :: "'p set \<Rightarrow> 'p set" where
  "topmost P = {p \<in> P. \<forall>q\<in>P. below p q \<longrightarrow> q = p}"

definition covers :: "'p set \<Rightarrow> 'p list \<Rightarrow> bool" where
  "covers P acc = (set acc \<subseteq> P \<and> distinct acc \<and> (\<forall>p\<in>P. \<exists>q\<in>set acc. below p q) \<and>
     (\<forall>p\<in>set acc. \<forall>q\<in>set acc. below p q \<longrightarrow> p = q))"

lemma covers_topmost: "covers P acc \<Longrightarrow> set acc = topmost P"
  unfolding covers_def topmost_def by (auto; metis below_trans below_antisym subsetD)

lemma covers_step:
  assumes "covers P acc"
  shows "covers (insert p P)
    (if \<exists>q\<in>set acc. below p q then acc else filter (\<lambda>q. \<not> below q p) acc @ [p])"
proof (cases "\<exists>q\<in>set acc. below p q")
  case True
  then show ?thesis using assms by (auto simp: covers_def)
next
  case False
  have "\<exists>q\<in>insert p {q \<in> set acc. \<not> below q p}. below r q" if r: "r \<in> insert p P" for r
  proof (cases "r = p")
    case False
    then have "\<exists>q\<in>set acc. below r q" using assms r by (auto simp: covers_def)
    then obtain q where "q \<in> set acc" "below r q" by blast
    then show ?thesis using below_trans by blast
  qed (use below_refl in blast)
  then show ?thesis using assms False below_refl by (auto simp: covers_def)
qed

lemma covers_fold:
  "covers P acc \<Longrightarrow> covers (P \<union> set ps)
     (foldl (\<lambda>acc p. if \<exists>q\<in>set acc. below p q then acc else filter (\<lambda>q. \<not> below q p) acc @ [p]) acc ps)"
proof (induction ps arbitrary: P acc)
  case (Cons p ps)
  from Cons.IH [OF covers_step [OF Cons.prems]] show ?case by simp
qed simp

end

interpretation relative: subpaths is_relative_to
  by unfold_locales (auto intro: is_relative_to_trans is_relative_to_antisym)

lemma minimize_paths_covers: "relative.covers (set ps) (minimize_paths ps)"
proof -
  have "minimize_step = (\<lambda>acc p. if \<exists>q\<in>set acc. is_relative_to p q then acc
      else filter (\<lambda>q. \<not> is_relative_to q p) acc @ [p])"
    by (simp add: minimize_step_def fun_eq_iff)
  then show ?thesis
    using relative.covers_fold [of "{}" "[]" "sort_key path_key ps"]
    by (simp add: minimize_paths_def relative.covers_def)
qed

text \<open>
  C14. \<^verbatim>\<open>_minimize_paths\<close> keeps exactly the topmost paths of the set: those that lie below no other
  one.  They form an antichain, and every path of the set is one of them or lies below one of them.
\<close>

theorem minimize_paths_topmost:
  "set (minimize_paths ps) = {p \<in> set ps. \<forall>q\<in>set ps. is_relative_to p q \<longrightarrow> q = p} \<and>
   distinct (minimize_paths ps) \<and>
   (\<forall>p\<in>set ps. \<exists>q\<in>set (minimize_paths ps). is_relative_to p q)"
  using relative.covers_topmost [OF minimize_paths_covers, of ps] minimize_paths_covers [of ps]
  by (simp add: relative.topmost_def relative.covers_def)

theorem minimize_paths_topmost_witness:
  "set (minimize_paths [path_of ''/a/b'', path_of ''/a/b/c'', path_of ''/d'']) = {path_of ''/a/b'', path_of ''/d''}"
  unfolding minimize_paths_topmost [THEN conjunct1] by code_simp

section \<open>What the scan finds\<close>

text \<open>One link of a chain, the normalised targets of a chain that lie outside, and the links of a
  tree.\<close>

inductive linked :: "node \<Rightarrow> path \<Rightarrow> path \<Rightarrow> bool" for fs where
  "readlink_at fs (p_parts p) = Some t \<Longrightarrow> exists_at fs (p_parts (link_target p t)) \<Longrightarrow>
   linked fs p (link_target p t)"

inductive_simps linked_iff: "linked fs p q"

definition outside :: "node \<Rightarrow> path \<Rightarrow> path \<Rightarrow> path set" where
  "outside fs scan p =
     (\<lambda>q. path_of (normpath (str_path q))) ` {q. (linked fs)\<^sup>+\<^sup>+ p q \<and> is_external scan q}"

definition tree_links :: "node \<Rightarrow> path \<Rightarrow> path set" where
  "tree_links fs d =
     {p. \<exists>root dirs files name. (root, dirs, files) \<in> set (os_walk fs prune_venv (p_parts d) d) \<and>
        name \<in> set dirs \<union> set files \<and> p = joinpath root (Path [] [name]) \<and>
        is_symlink_at fs (p_parts p) \<and> \<not> startswith name ''bazel-''}"

text \<open>The external paths: the outside targets of the links in a scanned directory, where the external
  directories are scanned in turn.\<close>

inductive mounted :: "node \<Rightarrow> path \<Rightarrow> path \<Rightarrow> bool" and scanned_dir :: "node \<Rightarrow> path \<Rightarrow> path \<Rightarrow> bool"
  for fs scan where
  scan_root: "scanned_dir fs scan scan"
| scan_mount: "mounted fs scan p \<Longrightarrow> is_dir_at fs (p_parts p) \<Longrightarrow> scanned_dir fs scan p"
| mount_link: "scanned_dir fs scan d \<Longrightarrow> p \<in> tree_links fs d \<Longrightarrow> q \<in> outside fs scan p \<Longrightarrow> mounted fs scan q"

text \<open>\<open>found fs S st st'\<close>: the paths of \<open>S\<close> have been added, and the new directories queued.\<close>

definition found :: "node \<Rightarrow> path set \<Rightarrow> scan \<Rightarrow> scan \<Rightarrow> bool" where
  "found fs S st st' =
     (set (fst st') = set (fst st) \<union> S \<and>
      set (snd st') = set (snd st) \<union> {d \<in> S - set (fst st). is_dir_at fs (p_parts d)})"

lemma found_refl: "found fs {} st st"
  by (simp add: found_def)

lemma found_trans: "found fs S st st1 \<Longrightarrow> found fs T st1 st2 \<Longrightarrow> found fs (S \<union> T) st st2"
  by (auto simp: found_def)

lemma add_external_found:
  "found fs (if is_external scan q then {path_of (normpath (str_path q))} else {}) st (add_external fs scan q st)"
  by (cases st) (auto simp: found_def add_external_def Let_def)

lemma outside_link:
  assumes "readlink_at fs (p_parts p) = Some t" "exists_at fs (p_parts (link_target p t))"
  shows "outside fs scan p =
    (if is_external scan (link_target p t) then {path_of (normpath (str_path (link_target p t)))} else {}) \<union>
    outside fs scan (link_target p t)"
proof -
  have "linked fs p q \<longleftrightarrow> q = link_target p t" for q using assms by (auto simp: linked_iff)
  then have "(linked fs)\<^sup>+\<^sup>+ p q \<longleftrightarrow> q = link_target p t \<or> (linked fs)\<^sup>+\<^sup>+ (link_target p t) q" for q
    by (metis tranclp.r_into_trancl tranclp_into_tranclp2 tranclpD rtranclpD)
  then show ?thesis by (auto simp: outside_def)
qed

lemma outside_no_link:
  assumes "\<nexists>t. readlink_at fs (p_parts p) = Some t \<and> exists_at fs (p_parts (link_target p t))"
  shows "outside fs scan p = {}"
proof -
  have "\<not> linked fs p q" for q using assms by (auto simp: linked_iff)
  then show ?thesis by (auto simp: outside_def dest: tranclpD)
qed

lemma process_symlink_found:
  assumes "\<forall>v\<in>set visited. links_used fs (p_parts p) < links_used fs (p_parts v)"
  shows "found fs (outside fs scan p) st (process_symlink fs scan visited p st)"
  using assms
proof (induction fs scan visited p st rule: process_symlink.induct)
  case (1 fs scan visited p st)
  have new: "p \<notin> set visited" using 1(2) by auto
  show ?case
  proof (cases "\<exists>t. readlink_at fs (p_parts p) = Some t \<and> exists_at fs (p_parts (link_target p t))")
    case True
    then obtain t where t: "readlink_at fs (p_parts p) = Some t" "exists_at fs (p_parts (link_target p t))" by blast
    have "links_used fs (p_parts (link_target p t)) < links_used fs (p_parts p)"
      by (rule link_fewer [OF t(1) t(2) link_target_parts])
    then have "\<forall>v\<in>set (p # visited). links_used fs (p_parts (link_target p t)) < links_used fs (p_parts v)"
      using 1(2) by fastforce
    with 1(1) [OF t(1) new refl] t(2)
    have "found fs (outside fs scan (link_target p t)) (add_external fs scan (link_target p t) st)
        (process_symlink fs scan (p # visited) (link_target p t) (add_external fs scan (link_target p t) st))"
      by simp
    from found_trans [OF add_external_found this] show ?thesis
      by (subst process_symlink.simps) (simp add: t new outside_link [OF t] Let_def)
  next
    case False
    then show ?thesis
      using found_refl new
      by (subst process_symlink.simps) (auto simp: outside_no_link Let_def split: option.splits)
  qed
qed

lemma scan_entry_found:
  "found fs (if is_symlink_at fs (p_parts (joinpath dir (Path [] [name]))) \<and> \<not> startswith name ''bazel-''
             then outside fs scan (joinpath dir (Path [] [name])) else {})
     st (scan_entry fs scan dir st name)"
  using process_symlink_found [of "[]"] found_refl by (simp add: scan_entry_def Let_def)

lemma foldl_found:
  assumes "\<And>st x. found fs (S x) st (f st x)"
  shows "found fs (\<Union>x\<in>set xs. S x) st (foldl f st xs)"
proof (induction xs arbitrary: st)
  case (Cons x xs)
  from found_trans [OF assms Cons] show ?case by simp
qed (simp add: found_refl)

lemma scan_tree_found: "found fs (\<Union>p\<in>tree_links fs d. outside fs scan p) st (scan_tree fs scan d st)"
proof -
  let ?S = "\<lambda>dir name. if is_symlink_at fs (p_parts (joinpath dir (Path [] [name]))) \<and> \<not> startswith name ''bazel-''
             then outside fs scan (joinpath dir (Path [] [name])) else {}"
  have "found fs (case x of (dir, dirs, files) \<Rightarrow> \<Union>name\<in>set (dirs @ files). ?S dir name) st
      (case x of (dir, dirs, files) \<Rightarrow> foldl (scan_entry fs scan dir) st (dirs @ files))" for st x
    by (cases x) (simp only: prod.case, rule foldl_found [OF scan_entry_found])
  then have "found fs (\<Union>x\<in>set (os_walk fs prune_venv (p_parts d) d).
        case x of (dir, dirs, files) \<Rightarrow> \<Union>name\<in>set (dirs @ files). ?S dir name) st
      (scan_tree fs scan d st)"
    unfolding scan_tree_def by (rule foldl_found)
  moreover have "(\<Union>x\<in>set (os_walk fs prune_venv (p_parts d) d).
        case x of (dir, dirs, files) \<Rightarrow> \<Union>name\<in>set (dirs @ files). ?S dir name) =
      (\<Union>p\<in>tree_links fs d. outside fs scan p)"
    by (fastforce simp: tree_links_def split: if_splits)
  ultimately show ?thesis by simp
qed

lemma mounts_loop_correct:
  assumes "\<forall>p\<in>set ext. mounted fs scan p" "\<forall>d\<in>set work. scanned_dir fs scan d"
    and "\<forall>d\<in>set scanned. \<forall>p\<in>tree_links fs d. outside fs scan p \<subseteq> set ext"
    and "scan \<in> set scanned \<union> set work"
    and "\<forall>p\<in>set ext. is_dir_at fs (p_parts p) \<longrightarrow> p \<in> set scanned \<union> set work"
  shows "set (mounts_loop fs scan work scanned ext) = {p. mounted fs scan p}"
  using assms
proof (induction fs scan work scanned ext rule: mounts_loop.induct)
  case (1 fs scan scanned ext)
  have "mounted fs scan p \<Longrightarrow> p \<in> set ext" "scanned_dir fs scan d \<Longrightarrow> d \<in> set scanned" for p d
    by (induction rule: mounted_scanned_dir.inducts) (use 1 in auto)
  then show ?case using 1(1) by auto
next
  case (2 fs scan d work scanned ext)
  show ?case
  proof (cases "d \<in> set scanned")
    case True
    have "set (mounts_loop fs scan work scanned ext) = {p. mounted fs scan p}"
      by (rule 2(1) [OF True]) (use 2(3-) True in auto)
    then show ?thesis using True by simp
  next
    case False
    obtain ext' work' where t: "scan_tree fs scan d (ext, work) = (ext', work')" by fastforce
    let ?S = "\<Union>p\<in>tree_links fs d. outside fs scan p"
    have f: "set ext' = set ext \<union> ?S" "set work' = set work \<union> {q \<in> ?S - set ext. is_dir_at fs (p_parts q)}"
      using scan_tree_found [where fs = fs and d = d and scan = scan and st = "(ext, work)"] t by (simp_all add: found_def)
    have "scanned_dir fs scan d" using 2(4) by simp
    then have m: "\<forall>q\<in>?S. mounted fs scan q" using mount_link by blast
    have "set (mounts_loop fs scan work' (d # scanned) ext') = {p. mounted fs scan p}"
    proof (rule 2(2) [OF False t [symmetric]])
      show "\<forall>p\<in>set ext'. mounted fs scan p" using 2(3) m f(1) by blast
      show "\<forall>q\<in>set work'. scanned_dir fs scan q" using 2(4) m f(2) scan_mount by auto
      show "\<forall>d'\<in>set (d # scanned). \<forall>p\<in>tree_links fs d'. outside fs scan p \<subseteq> set ext'" using 2(5) f(1) by auto
      show "scan \<in> set (d # scanned) \<union> set work'" using 2(6) f(2) by auto
      show "\<forall>p\<in>set ext'. is_dir_at fs (p_parts p) \<longrightarrow> p \<in> set (d # scanned) \<union> set work'" using 2(7) f by auto
    qed
    then show ?thesis using False t by simp
  qed
qed

lemma mounts_loop_finds: "set (mounts_loop fs scan [scan] [] []) = {p. mounted fs scan p}"
  by (rule mounts_loop_correct) (auto intro: scan_root)

text \<open>An external path is normalised and does not lie below the scanned directory.\<close>

lemma normpath_str_path:
  assumes "regular p" "p_root p = ''/''"
  shows "normpath (str_path p) = str_path p"
proof -
  have ps: "list_all plain (p_parts p)" "no_dotdot (p_parts p)" using assms by (simp_all add: regular_def path_wf_def)
  have str: "str_path p = CHR ''/'' # join ''/'' (p_parts p)" by (simp add: str_path_def assms(2))
  have "slash_root (str_path p) = ''/''"
    using leading_slashes_join [OF ps(1)] by (simp add: str slash_root_def leading_slashes_def)
  moreover have "norm_comps True (split_on CHR ''/'' (join ''/'' (p_parts p))) = p_parts p"
  proof (cases "p_parts p = []")
    case False
    then have "split_on CHR ''/'' (join ''/'' (p_parts p)) = p_parts p"
      using ps(1) split_on_join_inverse by (auto simp: list_all_iff plain_def)
    then show ?thesis using norm_comps_plain ps by simp
  qed (simp add: norm_comps_def)
  ultimately show ?thesis by (simp add: normpath_def str norm_comps_def Let_def)
qed

lemma str_path_root: "str_path (Path ''/'' cs) = ''/'' @ join ''/'' cs"
  by (simp add: str_path_def)

lemma str_path_inject:
  assumes "regular p" "regular q"
  shows "str_path p = str_path q \<longleftrightarrow> p = q"
proof
  assume "str_path p = str_path q"
  then have "path_of (str_path p) = path_of (str_path q)" by (rule arg_cong)
  then show "p = q" using assms by (simp only: regular_def path_of_str_path)
qed simp

text \<open>Below the scanned directory is what has its components as a prefix.\<close>

lemma commonpath_below:
  assumes "regular (Path ''/'' cs)"
  shows "normpath (commonpath (str_path (Path ''/'' cs)) n) = str_path (Path ''/'' cs) \<longleftrightarrow> prefix cs (components n)"
proof -
  define c where "c = common_prefix cs (components n)"
  have cs: "list_all plain cs" using assms by (simp add: regular_def path_wf_def)
  have "set c \<subseteq> set cs" unfolding c_def by (rule set_mono_prefix [OF common_prefix_prefix(1)])
  then have c: "regular (Path ''/'' c)"
    using assms by (auto simp: regular_def path_wf_def is_absolute_def no_dotdot_def list_all_iff)
  have "components (str_path (Path ''/'' cs)) = cs"
    using components_join [OF cs] by (simp add: str_path_root)
  then have "commonpath (str_path (Path ''/'' cs)) n = str_path (Path ''/'' c)"
    by (simp add: commonpath_def str_path_root c_def)
  then have "normpath (commonpath (str_path (Path ''/'' cs)) n) = str_path (Path ''/'' c)"
    using normpath_str_path [OF c] by simp
  then show ?thesis
    using str_path_inject [OF c assms] common_prefix_eq_left [of cs "components n"] by (simp add: c_def)
qed

lemma is_external_iff:
  assumes "regular scan" "p_root scan = ''/''"
  shows "is_external scan q \<longleftrightarrow>
    startswith (str_path q) ''/'' \<and> \<not> prefix (p_parts scan) (p_parts (path_of (normpath (str_path q))))"
proof -
  have scan: "scan = Path ''/'' (p_parts scan)" using assms(2) by (cases scan) simp
  have "p_parts (path_of n) = components n" for n by (simp add: path_of_def)
  then show ?thesis
    unfolding is_external_def
    using commonpath_below [of "p_parts scan" "normpath (str_path q)"] assms(1) scan by metis
qed

lemma mounted_outside:
  assumes "mounted fs scan p" "regular scan" "p_root scan = ''/''"
  shows "regular p \<and> \<not> prefix (p_parts scan) (p_parts p)"
proof -
  from assms(1) obtain q where "is_external scan q" "p = path_of (normpath (str_path q))"
    by (cases rule: mounted.cases) (auto simp: outside_def)
  then show ?thesis using is_external_iff [OF assms(2,3)] path_of_normpath(2) by blast
qed

lemma realpath_regular:
  assumes "realpath fs k cur cs = Inr cs'" "\<forall>c\<in>set cs. CHR ''/'' \<notin> set c" "list_all plain cur" "no_dotdot cur"
  shows "list_all plain cs' \<and> no_dotdot cs'"
  using assms
proof (induction fs k cur cs rule: realpath.induct)
  case (2 fs k cur c cs)
  note prems = 2(7-10) and IH = 2(1-6)
  have bl: "list_all plain (butlast cur)" "no_dotdot (butlast cur)"
    using prems(3,4) by (auto simp: list_all_iff no_dotdot_def dest: in_set_butlastD)
  have comp: "\<forall>c\<in>set (components t @ cs). CHR ''/'' \<notin> set c" for t
    using prems(2) components_plain [of t] by (auto simp: list_all_iff plain_def)
  have base: "list_all plain (if b then [] else cur)" "no_dotdot (if b then [] else cur)" for b
    using prems(3,4) by (simp_all add: no_dotdot_def)
  consider "c = [] \<or> c = ''.''" | "c = ''..''" | "\<not> (c = [] \<or> c = ''.'')" "c \<noteq> ''..''" by blast
  then show ?case
  proof cases
    case 1
    then show ?thesis using IH(1) prems by simp
  next
    case 2
    then show ?thesis using IH(2) prems bl by simp
  next
    case 3
    then have "plain c" using prems(2) by (simp add: plain_def)
    then have ext: "list_all plain (cur @ [c])" "no_dotdot (cur @ [c])" and cs: "\<forall>c\<in>set cs. CHR ''/'' \<notin> set c"
      using prems 3 by (simp_all add: no_dotdot_def)
    show ?thesis
    proof (cases "lookup_last fs cur c")
      case (Inl e)
      then show ?thesis using IH(3) [OF 3 Inl _ cs ext] prems(1) 3 by simp
    next
      case (Inr n)
      show ?thesis
      proof (cases n)
        case (Link t)
        have k: "k \<noteq> 0" using prems(1) 3 Inr Link by (simp split: if_splits)
        show ?thesis using IH(6) [OF 3 Inr Link k _ comp base] prems(1) 3 Inr Link k by simp
      next
        case (Dir es)
        then show ?thesis using IH(4) [OF 3 Inr Dir _ cs ext] prems(1) 3 Inr by simp
      next
        case (File x m)
        then show ?thesis using IH(5) [OF 3 Inr File _ cs ext] prems(1) 3 Inr by simp
      qed
    qed
  qed
qed simp

lemma path_resolve_regular:
  assumes "path_resolve p w = (Inr q, w')" "list_all plain (comps w p)"
  shows "regular q" "p_root q = ''/''" "w' = w"
proof -
  from assms(1) obtain cs where "realpath (w_fs w) max_links [] (comps w p) = Inr cs" "q = Path ''/'' cs" "w' = w"
    by (auto simp: path_resolve_def split: sum.splits)
  moreover have "list_all plain cs \<and> no_dotdot cs"
    by (rule realpath_regular [OF calculation(1)])
      (use assms(2) in \<open>auto simp: list_all_iff plain_def no_dotdot_def\<close>)
  ultimately show "regular q" "p_root q = ''/''" "w' = w"
    by (simp_all add: regular_def path_wf_def is_absolute_def)
qed

text \<open>
  C15. For a directory whose path resolves, \<^verbatim>\<open>list_external_mounts\<close> returns, and what it returns is
  exactly the set of external paths: the normalised outside targets on the chains of all links in
  the scanned directories, where every external directory is scanned too.  Each of them is absolute
  and normalised and lies outside the directory.
\<close>

theorem list_external_mounts_correct:
  assumes "path_resolve scan_dir w = (Inr scan, w1)" "list_all plain (comps w scan_dir)"
  shows "\<exists>ps. list_external_mounts scan_dir w = (Inr ps, w) \<and> set ps = {p. mounted (w_fs w) scan p} \<and>
    list_all (\<lambda>p. regular p \<and> \<not> prefix (p_parts scan) (p_parts p)) ps"
proof -
  note r = path_resolve_regular [OF assms]
  let ?ps = "mounts_loop (w_fs w) scan [scan] [] []"
  have "list_external_mounts scan_dir w = (Inr ?ps, w)"
    by (simp add: list_external_mounts_def bindM_run assms(1) r(3))
  then show ?thesis
    using mounts_loop_finds [of "w_fs w" scan] mounted_outside [OF _ r(1,2)]
    by (intro exI [of _ ?ps]) (simp add: list_all_iff del: mounts_loop.simps)
qed

definition mounts_world :: world where
  "mounts_world =
     \<lparr>w_fs = Dir [(''ext'', Dir [(''lib'', File [] 0)]), (''w'', Dir [(''l'', Link ''/ext'')])],
      w_cwd = [], w_env = [], w_trace = [], w_exec = (\<lambda>_ fs _. (NoProgram, fs)), w_order = (\<lambda>xs. xs)\<rparr>"

lemma mounts_world_simps:
  "realpath (w_fs mounts_world) max_links [] [''w''] = Inr [''w'']"
  "mounts_loop (w_fs mounts_world) (Path ''/'' [''w'']) [Path ''/'' [''w'']] [] [] = [Path ''/'' [''ext'']]"
  "is_symlink_at (w_fs mounts_world) [''w''] = False"
  by code_simp+

lemma mounts_world_resolve: "path_resolve (Path ''/'' [''w'']) mounts_world = (Inr (Path ''/'' [''w'']), mounts_world)"
  using mounts_world_simps(1) by (simp add: path_resolve_def comps_def is_absolute_def del: realpath.simps)

theorem list_external_mounts_correct_witness:
  "\<exists>ps. list_external_mounts (Path ''/'' [''w'']) mounts_world = (Inr ps, mounts_world) \<and>
     set ps = {p. mounted (w_fs mounts_world) (Path ''/'' [''w'']) p}"
  using list_external_mounts_correct [OF mounts_world_resolve]
  by (auto simp: comps_def is_absolute_def plain_def)

lemma mapM_path_resolve:
  "mapM path_resolve ps w = (Inr qs, w') \<Longrightarrow> w' = w \<and> (\<forall>p\<in>set ps. \<exists>q\<in>set qs. path_resolve p w = (Inr q, w))"
proof (induction ps arbitrary: qs w')
  case (Cons p ps)
  from Cons.prems obtain q w1 qs' where q: "path_resolve p w = (Inr q, w1)" "mapM path_resolve ps w1 = (Inr qs', w')"
    "qs = q # qs'" by (auto simp: bindM_Inr)
  have "w1 = w" using q(1) by (auto simp: path_resolve_def split: sum.splits)
  then show ?case using Cons.IH [of qs' w'] q by auto
qed simp

text \<open>
  C16. The mounts that \<^verbatim>\<open>get_minimal_mounts\<close> returns are enough and none is superfluous: every external
  path that a link of the directory leads to, every mount given, and the directory a given mount
  resolves to lies below one of them, and none of them lies below another.
\<close>

theorem get_minimal_mounts_cover:
  assumes "get_minimal_mounts root_dir existing w = (Inr ms, w')" "path_resolve root_dir w = (Inr scan, w1)"
  shows "(\<forall>p. mounted (w_fs w) scan p \<longrightarrow> (\<exists>m\<in>set ms. is_relative_to p m)) \<and>
    (\<forall>p\<in>set existing. (\<exists>m\<in>set ms. is_relative_to p m) \<and>
       (\<exists>q. path_resolve p w = (Inr q, w) \<and> (\<exists>m\<in>set ms. is_relative_to q m))) \<and>
    (\<forall>m\<in>set ms. \<forall>n\<in>set ms. is_relative_to m n \<longrightarrow> m = n)"
proof -
  have w1: "w1 = w" using assms(2) by (auto simp: path_resolve_def split: sum.splits)
  let ?links = "mounts_loop (w_fs w) scan [scan] [] []"
  from assms obtain resolved w2 physical where r: "mapM path_resolve existing w = (Inr resolved, w2)"
    and ms: "ms = minimize_paths (remdups (?links @ existing @ resolved @ physical))"
    by (auto simp: get_minimal_mounts_def list_external_mounts_def bindM_Inr w1 simp del: mounts_loop.simps)
  have all: "\<exists>m\<in>set ms. is_relative_to p m" if "p \<in> set (?links @ existing @ resolved @ physical)" for p
    using minimize_paths_covers [of "remdups (?links @ existing @ resolved @ physical)"] that
    by (simp add: relative.covers_def ms del: mounts_loop.simps)
  have "\<exists>m\<in>set ms. is_relative_to p m" if "mounted (w_fs w) scan p" for p
    using all [of p] that mounts_loop_finds [of "w_fs w" scan] by (simp del: mounts_loop.simps)
  moreover have "\<exists>q. path_resolve p w = (Inr q, w) \<and> (\<exists>m\<in>set ms. is_relative_to q m)" if "p \<in> set existing" for p
    using mapM_path_resolve [OF r] that all by fastforce
  moreover have "\<forall>m\<in>set ms. \<forall>n\<in>set ms. is_relative_to m n \<longrightarrow> m = n"
    using minimize_paths_covers unfolding relative.covers_def ms by blast
  ultimately show ?thesis using all by auto
qed

lemma mounts_world_minimal:
  "get_minimal_mounts (Path ''/'' [''w'']) [Path ''/'' [''w'']] mounts_world =
     (Inr [Path ''/'' [''ext''], Path ''/'' [''w'']], mounts_world)"
proof -
  have "minimize_paths [Path ''/'' [''ext''], Path ''/'' [''w'']] = [Path ''/'' [''ext''], Path ''/'' [''w'']]"
    by code_simp
  then show ?thesis
    by (simp add: get_minimal_mounts_def list_external_mounts_def bindM_run mounts_world_resolve mounts_world_simps(2)
        comps_def is_absolute_def mounts_world_simps(3) del: mounts_loop.simps)
qed

theorem get_minimal_mounts_cover_witness:
  "\<exists>ms. fst (get_minimal_mounts (Path ''/'' [''w'']) [Path ''/'' [''w'']] mounts_world) = Inr ms \<and>
     (\<exists>m\<in>set ms. is_relative_to (Path ''/'' [''ext'']) m)"
proof -
  have "Path ''/'' [''ext''] \<in> {p. mounted (w_fs mounts_world) (Path ''/'' [''w'']) p}"
    unfolding mounts_loop_finds [symmetric] mounts_world_simps(2) by simp
  then have "mounted (w_fs mounts_world) (Path ''/'' [''w'']) (Path ''/'' [''ext''])" by simp
  then show ?thesis
    using get_minimal_mounts_cover [OF mounts_world_minimal mounts_world_resolve] mounts_world_minimal
    by (intro exI [of _ "[Path ''/'' [''ext''], Path ''/'' [''w'']]"]) simp
qed

end
