(* ===== verification/DockerMain.thy ===== *)
theory DockerMain
  imports DockerTags PyArgparse PyFiles
begin

text \<open>
  The command line of \<^verbatim>\<open>src/.devkit/scripts/docker/build.py\<close>: \<open>main\<close> with its parser, the check of the
  target images, and what a run writes to the standard output, where the callers read the tag.
\<close>

section \<open>The script\<close>






section \<open>The check of the targets\<close>




section \<open>The standard output\<close>

fun outs :: "event list \<Rightarrow> string list" where
  "outs [] = []"
| "outs (Print Stdout s # evs) = s # outs evs"
| "outs (_ # evs) = outs evs"

lemma outs_append [simp]: "outs (evs @ evs') = outs evs @ outs evs'"
  by (induction evs rule: outs.induct) simp_all






















section \<open>The printed tag\<close>





lemma get_image_tag_update [simp]: "get_image_tag (b\<lparr>generated_tags := ts\<rparr>) = get_image_tag b"
  by (simp add: get_image_tag_def fun_eq_iff Let_def)



















end
