(* ===== verification/Readers.thy ===== *)
theory Readers
  imports DockerTags
begin

text \<open>
  Actions whose result depends only on the files and the settings of the world, not on what has
  been run or printed before, which leave these alone and run no command: the whole computation of
  the image tags is one.
\<close>

section \<open>Readers\<close>

definition reader :: "'a io \<Rightarrow> bool" where
  "reader m =
     (files.keeps m \<and> cmds.keeps {} m \<and> (\<forall>w w'. same_files w w' \<longrightarrow> fst (m w') = fst (m w)))"

lemma same_files_sym: "same_files w w' \<Longrightarrow> same_files w' w"
  by (simp add: same_files_def same_setting_def)

lemma reader_fst: "reader m \<Longrightarrow> same_files w w' \<Longrightarrow> fst (m w') = fst (m w)"
  by (simp add: reader_def)

lemma reader_files: "reader m \<Longrightarrow> same_files w (snd (m w))"
  by (simp add: reader_def files.keeps_def)

lemma reader_cmds: "reader m \<Longrightarrow> cmds.keeps C m"
  by (fastforce simp: reader_def cmds.keeps_def runs_only_def)

lemma reader_retM: "reader (retM x)"
  and reader_raiseM: "reader (raiseM e)"
  and reader_liftM: "reader (liftM r)"
  by (simp_all add: reader_def files.keeps_retM files.keeps_raiseM files.keeps_liftM
      cmds.keeps_retM cmds.keeps_raiseM cmds.keeps_liftM)

lemma reader_log: "reader (emit (Log l s))"
  and reader_print: "reader (emit (Print f s))"
  by (simp_all add: reader_def files_keeps_emit cmds_keeps_log cmds_keeps_print)

lemma reader_getM: "(\<And>w w'. same_files w w' \<Longrightarrow> g w' = g w) \<Longrightarrow> reader (getM g)"
  by (simp add: reader_def files.keeps_getM cmds.keeps_getM)

lemma reader_bindM:
  assumes "reader m" "\<And>x. reader (f x)"
  shows "reader (bindM m f)"
  unfolding reader_def
proof (intro conjI allI impI)
  show "files.keeps (bindM m f)" "cmds.keeps {} (bindM m f)"
    using assms by (auto intro!: files.keeps_bindM cmds.keeps_bindM simp: reader_def)
  fix w w' assume s: "same_files w w'"
  obtain r w1 where m: "m w = (r, w1)" by fastforce
  obtain w1' where m': "m w' = (r, w1')" using reader_fst [OF assms(1) s] m by (metis fst_conv surj_pair)
  have "same_files w1 w1'"
    using reader_files [OF assms(1), of w] reader_files [OF assms(1), of w'] m m' s
    by (metis files.trans same_files_sym snd_conv)
  then show "fst (bindM m f w') = fst (bindM m f w)"
    using reader_fst [OF assms(2)] by (cases r) (simp_all add: bindM_run m m')
qed

lemma reader_catchM:
  assumes "reader m" "\<And>e. reader (h e)"
  shows "reader (catchM m P h)"
  unfolding reader_def
proof (intro conjI allI impI)
  show "files.keeps (catchM m P h)" "cmds.keeps {} (catchM m P h)"
    using assms by (auto intro!: files.keeps_catchM cmds.keeps_catchM simp: reader_def)
  fix w w' assume s: "same_files w w'"
  obtain r w1 where m: "m w = (r, w1)" by fastforce
  obtain w1' where m': "m w' = (r, w1')" using reader_fst [OF assms(1) s] m by (metis fst_conv surj_pair)
  have "same_files w1 w1'"
    using reader_files [OF assms(1), of w] reader_files [OF assms(1), of w'] m m' s
    by (metis files.trans same_files_sym snd_conv)
  then show "fst (catchM m P h w') = fst (catchM m P h w)"
    using reader_fst [OF assms(2)] by (cases r) (simp_all add: catchM_def m m')
qed

lemma reader_whenM: "reader m \<Longrightarrow> reader (whenM b m)"
  by (simp add: whenM_def reader_retM)

lemma reader_if: "reader m \<Longrightarrow> reader k \<Longrightarrow> reader (if b then m else k)"
  by simp

lemma reader_case_prod: "(\<And>a b. reader (f a b)) \<Longrightarrow> reader (case p of (a, b) \<Rightarrow> f a b)"
  by (cases p) simp

lemma reader_case_prod_app: "(\<And>a b. reader (f a b x)) \<Longrightarrow> reader ((case p of (a, b) \<Rightarrow> f a b) x)"
  by (cases p) simp

lemma reader_case_option: "reader m \<Longrightarrow> (\<And>x. reader (f x)) \<Longrightarrow> reader (case v of None \<Rightarrow> m | Some x \<Rightarrow> f x)"
  by (cases v) simp_all

lemma reader_case_sum:
  "(\<And>e. reader (f e)) \<Longrightarrow> (\<And>x. reader (g x)) \<Longrightarrow> reader (case v of Inl e \<Rightarrow> f e | Inr x \<Rightarrow> g x)"
  by (cases v) simp_all

lemma reader_foldM: "(\<And>s x. x \<in> set xs \<Longrightarrow> reader (f s x)) \<Longrightarrow> reader (foldM f s xs)"
  by (induction xs arbitrary: s) (simp_all add: reader_retM reader_bindM)

lemma reader_read_bytes: "reader (read_bytes p)"
  using read_bytes_reads by (simp add: reader_def files.keeps_read_bytes cmds.keeps_read_bytes)

lemma reader_path_resolve: "reader (path_resolve p)"
  using path_resolve_reads by (simp add: reader_def files.keeps_path_resolve cmds.keeps_path_resolve)

lemma reader_path_exists: "reader (path_exists p)"
  unfolding path_exists_def by (rule reader_getM) (simp add: same_files_comps, simp add: same_files_def)

lemma reader_read_text: "reader (read_text p)"
  unfolding read_text_def by (intro reader_bindM reader_read_bytes reader_liftM)

lemma reader_json_load: "reader (json_load p)"
  unfolding json_load_def by (intro reader_bindM reader_read_text reader_liftM)

lemma reader_order: "reader (getM w_order)"
  by (rule reader_getM) (simp add: same_files_def same_setting_def)

lemmas reader_intros =
  reader_retM reader_raiseM reader_liftM reader_log reader_print reader_bindM reader_catchM reader_whenM reader_if
  reader_case_prod reader_case_prod_app reader_case_option reader_case_sum reader_foldM
  reader_read_bytes reader_path_resolve reader_path_exists reader_read_text reader_json_load reader_order

section \<open>The tags\<close>

lemma reader_load_packages: "reader (load_packages img kvs acc)"
proof (induction img kvs acc rule: load_packages.induct)
  case (2 img k v kvs acc)
  then show ?case
    unfolding load_packages.simps
    by (cases "truthy v") (simp_all only: simp_thms if_True if_False, (intro reader_intros)+)
qed (unfold load_packages.simps, rule reader_retM)

lemma reader_load_config: "reader (load_config b)"
proof -
  have "reader (load_image_settings b e)" for b e
    unfolding load_image_settings_def load_image_packages_def
    by (intro reader_intros reader_load_packages)
  then have "reader (load_images_config b config)" for b config
    unfolding load_images_config_def by (intro reader_intros)
  then show ?thesis unfolding load_config_def by (intro reader_intros)
qed

lemma reader_load_deps_file: "reader (load_deps_file cs p)"
proof -
  have "reader (case json_loads src of
       Inl (JSONDecodeError m) \<Rightarrow>
         bindM (log_error (''Could not decode '' @ str_path p @ '': '' @ m)) (\<lambda>_. sys_exit 1)
     | Inl e \<Rightarrow> raiseM e
     | Inr (JObj configs) \<Rightarrow> retM (dict_update cs configs)
     | Inr _ \<Rightarrow>
         bindM (log_warning (str_path p @ '' does not contain a dict of configs.'')) (\<lambda>_. retM cs))" for src
  proof (cases "json_loads src")
    case (Inl e)
    then show ?thesis by (cases e) (simp_all only: sum.case exn.case, (intro reader_intros)+)
  next
    case (Inr v)
    then show ?thesis by (cases v) (simp_all only: sum.case json.case, (intro reader_intros)+)
  qed
  then show ?thesis
    unfolding load_deps_file_def
    by (intro reader_bindM reader_if reader_path_exists reader_retM reader_read_text reader_log)
qed

lemma reader_find_dockerfile: "reader (find_dockerfile ps name)"
  by (induction ps) (simp_all only: find_dockerfile.simps Let_def, (intro reader_intros, assumption?)+)

lemma reader_calculate_tag: "reader (calculate_tag_for_image k b n)"
proof (induction k arbitrary: b n)
  case (Suc k)
  show ?case
    unfolding calculate_tag_for_image.simps store_tag_def calculate_sha256_def Let_def
    by (intro reader_intros reader_find_dockerfile Suc.IH)
qed (unfold calculate_tag_for_image.simps, rule reader_raiseM)

lemma reader_calculate_each: "reader (calculate_each b ns)"
  by (induction ns arbitrary: b)
    (simp_all only: calculate_each.simps, (intro reader_intros reader_calculate_tag, assumption?)+)

lemma reader_all_tags: "reader (get_all_docker_image_tags cfg paths targets)"
  unfolding get_all_docker_image_tags_def init_builder_def load_image_configs_def calculate_tags_def
    get_build_order_def get_dependency_subgraph_def build_order_all_def
  by (intro reader_intros reader_load_config reader_load_deps_file reader_calculate_each)

end
