(* ===== verification/DockerCleanup.thy ===== *)
theory DockerCleanup
  imports DockerMain Readers
begin

text \<open>
  \<^verbatim>\<open>src/.devkit/scripts/docker_cleanup.py\<close>: the removal of old docker images.  The event that cancels
  the task is set by another thread; it is the number of times it is still read as unset
  (\<open>None\<close> for never set), so that once set it stays set.  How often a running \<^verbatim>\<open>docker rmi\<close> is polled
  before it ends is the parameter \<open>polls\<close>.  The lengths of the delays do not matter.
\<close>

section \<open>Which images\<close>

definition ALLOWED_IMAGE_NAMES :: "string list" where
  "ALLOWED_IMAGE_NAMES =
     [''build-env'', ''build-env-debian'', ''build-env-rockylinux'', ''clion-ide'', ''dev-env'',
      ''gcloud-env'', ''goland-ide'', ''ide-env'', ''intellij-ide'', ''nitro-cli-linux6'',
      ''pycharm-ide'', ''tool-env'', ''vscode-ide'', ''vscode-server'']"

text \<open>
  The pattern
  \<^verbatim>\<open>^(?:.*/)?devkit(?:/.*)?/([^/:]+):([a-zA-Z0-9_]+)-([a-f0-9]{64})$\<close>, matched from its end: the last
  colon separates the name from the architecture and the digest, and the last slash before it the
  name from the path.  A dot matches no line feed, and the dollar sign also matches before a last
  line feed.  The result is the first group.
\<close>

definition is_arch_char :: "char \<Rightarrow> bool" where
  "is_arch_char c = (c \<in> set ''abcdefghijklmnopqrstuvwxyzABCDEFGHIJKLMNOPQRSTUVWXYZ0123456789_'')"

definition arch_hash_match :: "string \<Rightarrow> bool" where
  "arch_hash_match s =
     (let k = length s - 64; sha = drop k s; front = take k s
      in 64 \<le> length s \<and> list_all is_hex sha \<and> front \<noteq> [] \<and> last front = CHR ''-'' \<and>
         butlast front \<noteq> [] \<and> list_all is_arch_char (butlast front))"

definition devkit_path :: "string list \<Rightarrow> bool" where
  "devkit_path cs = (''devkit'' \<in> set cs \<and> list_all (\<lambda>c. nl \<notin> set c) cs)"

definition image_body :: "string \<Rightarrow> string" where
  "image_body img = (if img \<noteq> [] \<and> last img = nl then butlast img else img)"

definition IMAGE_PATTERN :: "string \<Rightarrow> string option" where
  "IMAGE_PATTERN img =
     (let parts = split_on CHR '':'' (image_body img);
          cs = split_on CHR ''/'' (join '':'' (butlast parts));
          name = last cs
      in if arch_hash_match (last parts) \<and> devkit_path (butlast cs) \<and> name \<noteq> [] \<and> CHR '':'' \<notin> set name
         then Some name else None)"

definition get_ignored_images :: "path \<Rightarrow> path list \<Rightarrow> string list io" where
  "get_ignored_images cfg paths =
     catchM
       (bindM (get_all_docker_image_tags cfg paths []) (\<lambda>ignored_images.
        bindM (log_info (''Determined '' @ str_nat (length ignored_images) @ '' images to ignore during cleanup.''))
          (\<lambda>_. retM ignored_images)))
       is_exception
       (\<lambda>e. bindM (log_warning (''Failed to calculate ignored images for cleanup: '' @ exn_str e)) (\<lambda>_. retM []))"

definition images_cmd :: "string \<Rightarrow> int \<Rightarrow> string list" where
  "images_cmd image_prefix threshold_days =
     [''docker'', ''images'', ''--filter'', ''reference='' @ image_prefix @ ''/*'',
      ''--filter'', ''until='' @ str_int (threshold_days * 24) @ ''h'',
      ''--format'', ''{{.Repository}}:{{.Tag}}'']"

definition get_images :: "string \<Rightarrow> int \<Rightarrow> string list io" where
  "get_images image_prefix threshold_days =
     catchM
       (bindM (run_checked True (images_cmd image_prefix threshold_days)) (\<lambda>(out, _).
          retM (splitlines (strip out))))
       (\<lambda>e. is_called_process_error e \<or> is_file_not_found e)
       (\<lambda>e. bindM (log_warning (''Failed to list docker images: '' @ exn_str e)) (\<lambda>_. retM []))"

fun filter_allowed_images :: "string list \<Rightarrow> string list io" where
  "filter_allowed_images [] = retM []"
| "filter_allowed_images (img # imgs) =
     (case IMAGE_PATTERN img of
        Some image_name \<Rightarrow>
          (if image_name \<in> set ALLOWED_IMAGE_NAMES then
             bindM (filter_allowed_images imgs) (\<lambda>rest. retM (img # rest))
           else
             bindM (log_info (''Skipping image '' @ img @ '' as it is not in the allowlist.'')) (\<lambda>_.
               filter_allowed_images imgs))
      | None \<Rightarrow>
          bindM (log_info (''Skipping image '' @ img @ '' as it does not match the expected format.'')) (\<lambda>_.
            filter_allowed_images imgs))"

definition get_images_to_cleanup :: "path \<Rightarrow> path list \<Rightarrow> int \<Rightarrow> string list io" where
  "get_images_to_cleanup cfg paths threshold_days =
     bindM (get_image_prefix cfg) (\<lambda>image_prefix.
     bindM (get_images image_prefix threshold_days) (\<lambda>all_images.
     if all_images = [] then bindM (log_info ''No images found for cleanup.'') (\<lambda>_. retM [])
     else
     bindM (filter_allowed_images all_images) (\<lambda>allowed_images.
     if allowed_images = [] then bindM (log_info ''No allowed images found for cleanup.'') (\<lambda>_. retM [])
     else
     bindM (get_ignored_images cfg paths) (\<lambda>ignored_images.
     let all_to_cleanup = filter (\<lambda>img. img \<notin> set ignored_images) allowed_images
     in if all_to_cleanup = [] then
          bindM (log_info ''All found images are in the ignore list. Nothing to clean up.'') (\<lambda>_. retM [])
        else
          bindM (log_info (''Found '' @ str_nat (length all_to_cleanup) @ '' images to clean up.'')) (\<lambda>_.
            retM all_to_cleanup)))))"

section \<open>Removal\<close>

type_synonym cancel = "nat option"

text \<open>\<^verbatim>\<open>is_set()\<close> and \<^verbatim>\<open>wait()\<close>: whether the event is set, and the event afterwards.\<close>

fun event_poll :: "cancel \<Rightarrow> bool \<times> cancel" where
  "event_poll None = (False, None)"
| "event_poll (Some 0) = (True, Some 0)"
| "event_poll (Some (Suc n)) = (False, Some n)"

text \<open>\<^verbatim>\<open>while proc.poll() is None\<close>, for a process that is found running \<open>n\<close> times.\<close>

fun wait_process :: "nat \<Rightarrow> cancel \<Rightarrow> bool \<times> cancel" where
  "wait_process 0 c = (False, c)"
| "wait_process (Suc n) c =
     (case event_poll c of (cancelled, c') \<Rightarrow> if cancelled then (True, c') else wait_process n c')"

definition rmi_cmd :: "string \<Rightarrow> string list" where
  "rmi_cmd tag = [''docker'', ''rmi'', tag]"

definition log_lines :: "(string \<Rightarrow> unit io) \<Rightarrow> string \<Rightarrow> string \<Rightarrow> unit io" where
  "log_lines log_line label text_out =
     whenM (text_out \<noteq> []) (forM (splitlines (strip text_out)) (\<lambda>line. log_line (label @ line)))"

definition report_removal :: "string \<Rightarrow> int \<Rightarrow> string \<Rightarrow> string \<Rightarrow> unit io" where
  "report_removal tag rc out err =
     bindM (log_lines (\<lambda>s. log_info s) ''[docker rmi stdout]: '' out) (\<lambda>_.
     bindM (log_lines (\<lambda>s. log_warning s) ''[docker rmi stderr]: '' err) (\<lambda>_.
       whenM (rc \<noteq> 0)
         (log_warning (''Failed to remove image '' @ tag @ '' (exit code '' @ str_int rc @ '')''))))"

text \<open>One removal: whether the batch is to end, and the event.\<close>

definition await_removal ::
  "(string \<Rightarrow> nat) \<Rightarrow> cancel \<Rightarrow> string \<Rightarrow> int \<times> string \<times> string \<Rightarrow> (bool \<times> cancel) io" where
  "await_removal polls cancel_event tag result =
     (case result of (rc, out, err) \<Rightarrow>
        (case wait_process (polls tag) cancel_event of (cancelled, c) \<Rightarrow>
           if cancelled then
             bindM (log_info (''Cleanup cancelled; exiting removal loop for '' @ tag)) (\<lambda>_. retM (True, c))
           else bindM (report_removal tag rc out err) (\<lambda>_. retM (False, c))))"

definition remove_image :: "(string \<Rightarrow> nat) \<Rightarrow> cancel \<Rightarrow> string \<Rightarrow> (bool \<times> cancel) io" where
  "remove_image polls cancel_event tag =
     bindM (log_info (''Removing image: '' @ tag)) (\<lambda>_.
     catchM
       (bindM (run_proc (rmi_cmd tag)) (await_removal polls cancel_event tag))
       is_exception
       (\<lambda>e. bindM (log_warning (''Error during image removal of '' @ tag @ '': '' @ exn_str e)) (\<lambda>_.
              retM (False, cancel_event))))"

fun remove_images :: "(string \<Rightarrow> nat) \<Rightarrow> cancel \<Rightarrow> string list \<Rightarrow> cancel io" where
  "remove_images polls cancel_event [] = retM cancel_event"
| "remove_images polls cancel_event (tag # tags) =
     (case event_poll cancel_event of (is_set, c) \<Rightarrow>
        if is_set then retM c
        else bindM (remove_image polls c tag) (\<lambda>(stop, c').
               if stop then retM c' else remove_images polls c' tags))"

definition cleanup_images_batch :: "(string \<Rightarrow> nat) \<Rightarrow> cancel \<Rightarrow> string list \<Rightarrow> cancel io" where
  "cleanup_images_batch polls cancel_event images_to_cleanup =
     (if images_to_cleanup = [] then retM cancel_event
      else bindM (log_info (''Cleaning up '' @ str_nat (length images_to_cleanup) @ '' images in this batch.''))
             (\<lambda>_. remove_images polls cancel_event images_to_cleanup))"

text \<open>\<^verbatim>\<open>[xs[i : i + n] for i in range(0, len(xs), n)]\<close>; a step of 0 is an error, and a negative step gives
  no index.\<close>

function chunks :: "nat \<Rightarrow> 'a list \<Rightarrow> 'a list list" where
  "chunks n xs = (if n = 0 \<or> xs = [] then [] else take n xs # chunks n (drop n xs))"
  by pat_completeness auto
termination
  by (relation "measure (\<lambda>(n, xs). length xs)") (auto simp: neq_Nil_conv)

declare chunks.simps [simp del]

definition batches :: "int \<Rightarrow> 'a list \<Rightarrow> exn + 'a list list" where
  "batches batch_size xs =
     (if batch_size = 0 then Inl (ValueError ''range() arg 3 must not be zero'')
      else if batch_size < 0 then Inr [] else Inr (chunks (nat batch_size) xs))"

fun cleanup_batches :: "(string \<Rightarrow> nat) \<Rightarrow> cancel \<Rightarrow> string list list \<Rightarrow> cancel io" where
  "cleanup_batches polls cancel_event [] = retM cancel_event"
| "cleanup_batches polls cancel_event (batch # rest) =
     bindM (cleanup_images_batch polls cancel_event batch) (\<lambda>c.
       case event_poll c of (is_set, c') \<Rightarrow>
         if is_set then retM c' else cleanup_batches polls c' rest)"

definition cleanup_images :: "(string \<Rightarrow> nat) \<Rightarrow> cancel \<Rightarrow> path \<Rightarrow> path list \<Rightarrow> int \<Rightarrow> int \<Rightarrow> unit io" where
  "cleanup_images polls cancel_event cfg paths batch_size threshold_days =
     (case event_poll cancel_event of (is_set, c) \<Rightarrow>
        if is_set then retM ()
        else
        bindM (get_images_to_cleanup cfg paths threshold_days) (\<lambda>all_to_cleanup.
        bindM (liftM (batches batch_size all_to_cleanup)) (\<lambda>bs.
        bindM (cleanup_batches polls c bs) (\<lambda>_. retM ()))))"

section \<open>Entry points\<close>

text \<open>The background thread, with what it will run for an event; the event starts unset.\<close>

record thread =
  th_name :: string
  th_daemon :: bool
  th_run :: "cancel \<Rightarrow> unit io"

definition CLEANUP_BATCH_SIZE :: int where
  "CLEANUP_BATCH_SIZE = 4"

definition CLEANUP_THRESHOLD_DAYS :: int where
  "CLEANUP_THRESHOLD_DAYS = 7"

definition start_background_cleanup ::
  "(string \<Rightarrow> nat) \<Rightarrow> path \<Rightarrow> path list \<Rightarrow> int \<Rightarrow> int \<Rightarrow> thread" where
  "start_background_cleanup polls cfg paths batch_size threshold_days =
     \<lparr>th_name = ''DockerCleanupThread'', th_daemon = True,
      th_run = (\<lambda>cancel_event.
        cleanup_images polls cancel_event cfg paths batch_size threshold_days)\<rparr>"

definition cleanup_parser :: "opt list" where
  "cleanup_parser =
     [help_opt,
      store_opt ''--devkit-log-file'' ''devkit_log_file'' ToPath ANone,
      (store_opt ''--config-path'' ''config_path'' ToPath ANone)\<lparr>o_required := True\<rparr>,
      (append_opt ''--search-path'' ''search_path'' ToPath ANone)\<lparr>o_required := True\<rparr>,
      store_opt ''--initial-delay'' ''initial_delay'' ToFloat (AFloat (Fin 0)),
      store_opt ''--cleanup-interval'' ''cleanup_interval'' ToFloat (AFloat (Fin 0)),
      store_opt ''--batch-size'' ''batch_size'' ToInt (AInt 10),
      store_opt ''--threshold-days'' ''threshold_days'' ToInt (AInt CLEANUP_THRESHOLD_DAYS)]"

text \<open>Run by hand, no thread sets the event; the import of \<^verbatim>\<open>docker.build\<close> runs its start-up.\<close>

definition cleanup_main :: "(string \<Rightarrow> nat) \<Rightarrow> string list \<Rightarrow> unit io" where
  "cleanup_main polls argv =
     bindM ensure_cloudsdk_python_is_set (\<lambda>_.
     bindM (parse_args cleanup_parser None argv) (\<lambda>args.
     bindM (basic_config (get_path args ''devkit_log_file'')) (\<lambda>_.
     catchM
       (cleanup_images polls None (the (get_path args ''config_path'')) (get_paths args ''search_path'')
          (get_int args ''batch_size'') (get_int args ''threshold_days''))
       (\<lambda>e. e = KeyboardInterrupt)
       (\<lambda>_. log_info ''Cleanup interrupted by user.''))))"

section \<open>The pattern\<close>

lemma split_on_concat: "split_on sep (u @ sep # v) = split_on sep u @ split_on sep v"
proof (induction u)
  case (Cons c u)
  then show ?case by (cases "split_on sep u") auto
qed simp

lemma split_on_last: "sep \<notin> set v \<Longrightarrow> split_on sep (u @ sep # v) = split_on sep u @ [v]"
  by (simp add: split_on_concat split_on_single)

lemma join_append: "xs \<noteq> [] \<Longrightarrow> ys \<noteq> [] \<Longrightarrow> join sep (xs @ ys) = join sep xs @ sep @ join sep ys"
proof (induction xs)
  case (Cons x xs)
  then show ?case by (cases xs; cases ys) auto
qed simp

text \<open>A component of a path, as the optional groups of the pattern describe it.\<close>

lemma in_split_on:
  assumes "sep \<notin> set c"
  shows "c \<in> set (split_on sep s) \<longleftrightarrow>
    (\<exists>x y. s = x @ c @ y \<and> (x = [] \<or> (\<exists>x'. x = x' @ [sep])) \<and> (y = [] \<or> (\<exists>y'. y = sep # y')))"
proof
  assume "c \<in> set (split_on sep s)"
  then obtain xs ys where p: "split_on sep s = xs @ [c] @ ys" by (auto dest: split_list)
  define x where "x = (if xs = [] then [] else join [sep] xs @ [sep])"
  define y where "y = (if ys = [] then [] else sep # join [sep] ys)"
  have "s = join [sep] (xs @ [c] @ ys)" using split_on_join [of sep s] p by simp
  also have "\<dots> = x @ c @ y"
    using join_append [of "[c]" ys "[sep]"] unfolding x_def y_def
    by (cases "xs = []"; cases "ys = []") (simp_all add: join_append)
  finally have "s = x @ c @ y" .
  moreover have "x = [] \<or> (\<exists>x'. x = x' @ [sep])" "y = [] \<or> (\<exists>y'. y = sep # y')"
    by (auto simp: x_def y_def)
  ultimately show "\<exists>x y. s = x @ c @ y \<and> (x = [] \<or> (\<exists>x'. x = x' @ [sep])) \<and> (y = [] \<or> (\<exists>y'. y = sep # y'))"
    by blast
next
  assume "\<exists>x y. s = x @ c @ y \<and> (x = [] \<or> (\<exists>x'. x = x' @ [sep])) \<and> (y = [] \<or> (\<exists>y'. y = sep # y'))"
  then show "c \<in> set (split_on sep s)"
    using assms by (auto simp: split_on_concat split_on_single)
qed

lemma split_on_newline: "list_all (\<lambda>c. x \<notin> set c) (split_on sep s) \<longleftrightarrow> x \<notin> set s \<or> x = sep"
proof (induction s)
  case (Cons c s)
  then show ?case using split_on_no_sep [of _ sep "c # s"] by (cases "split_on sep s") (auto simp: list_all_iff)
qed simp

lemma arch_hash_match_iff:
  "arch_hash_match r \<longleftrightarrow>
     (\<exists>arch sha. r = arch @ ''-'' @ sha \<and> arch \<noteq> [] \<and> list_all is_arch_char arch \<and>
        length sha = 64 \<and> list_all is_hex sha)"
proof
  assume m: "arch_hash_match r"
  let ?k = "length r - 64"
  have "take ?k r = butlast (take ?k r) @ ''-''"
    using m append_butlast_last_id [of "take ?k r"] by (simp add: arch_hash_match_def Let_def)
  then have "r = butlast (take ?k r) @ ''-'' @ drop ?k r" by (metis append.assoc append_take_drop_id)
  then show "\<exists>arch sha. r = arch @ ''-'' @ sha \<and> arch \<noteq> [] \<and> list_all is_arch_char arch \<and>
        length sha = 64 \<and> list_all is_hex sha"
    using m
    by (intro exI [of _ "butlast (take ?k r)"] exI [of _ "drop ?k r"]) (simp add: arch_hash_match_def Let_def)
qed (auto simp: arch_hash_match_def Let_def)

lemma arch_hash_chars:
  assumes "arch_hash_match r"
  shows "CHR '':'' \<notin> set r" "r \<noteq> []" "last r \<noteq> nl"
proof -
  obtain arch sha where r: "r = arch @ ''-'' @ sha" "list_all is_arch_char arch" "length sha = 64" "list_all is_hex sha"
    using assms by (auto simp: arch_hash_match_iff)
  then have sha: "sha \<noteq> []" by auto
  have chars: "\<not> is_arch_char CHR '':''" "\<not> is_hex CHR '':''" "\<not> is_hex nl" by code_simp+
  then show "CHR '':'' \<notin> set r" using r by (auto simp: list_all_iff)
  have "is_hex (last sha)" using r(4) sha by (simp add: list_all_iff)
  then show "last r \<noteq> nl" using chars(3) sha by (auto simp: r(1))
  show "r \<noteq> []" by (simp add: r(1))
qed

lemma IMAGE_PATTERN_body:
  "IMAGE_PATTERN img = Some name \<longleftrightarrow>
     (\<exists>pre r. image_body img = pre @ ''/'' @ name @ '':'' @ r \<and> arch_hash_match r \<and>
        devkit_path (split_on CHR ''/'' pre) \<and> name \<noteq> [] \<and> CHR ''/'' \<notin> set name \<and> CHR '':'' \<notin> set name)"
proof
  let ?s = "image_body img"
  let ?parts = "split_on CHR '':'' ?s"
  let ?cs = "split_on CHR ''/'' (join '':'' (butlast ?parts))"
  assume "IMAGE_PATTERN img = Some name"
  then have m: "arch_hash_match (last ?parts)" "devkit_path (butlast ?cs)" "name = last ?cs" "name \<noteq> []"
    "CHR '':'' \<notin> set name"
    by (simp_all add: IMAGE_PATTERN_def Let_def split: if_splits)
  have "CHR '':'' \<in> set ?s"
  proof (rule ccontr)
    assume "CHR '':'' \<notin> set ?s"
    then show False using m(3,4) by (simp add: split_on_single)
  qed
  then obtain u r where u: "?s = u @ CHR '':'' # r" "CHR '':'' \<notin> set r" by (metis split_list_last)
  then have parts: "?parts = split_on CHR '':'' u @ [r]" by (simp add: split_on_last)
  then have cs: "?cs = split_on CHR ''/'' u" by (simp add: split_on_join)
  have "CHR ''/'' \<in> set u"
  proof (rule ccontr)
    assume "CHR ''/'' \<notin> set u"
    then show False using m(2) by (simp add: cs split_on_single devkit_path_def)
  qed
  then obtain pre n where n: "u = pre @ CHR ''/'' # n" "CHR ''/'' \<notin> set n" by (metis split_list_last)
  then have "?cs = split_on CHR ''/'' pre @ [n]" by (simp add: cs split_on_last)
  then show "\<exists>pre r. ?s = pre @ ''/'' @ name @ '':'' @ r \<and> arch_hash_match r \<and>
        devkit_path (split_on CHR ''/'' pre) \<and> name \<noteq> [] \<and> CHR ''/'' \<notin> set name \<and> CHR '':'' \<notin> set name"
    using m parts u n by (intro exI [of _ pre] exI [of _ r]) simp
next
  assume "\<exists>pre r. image_body img = pre @ ''/'' @ name @ '':'' @ r \<and> arch_hash_match r \<and>
        devkit_path (split_on CHR ''/'' pre) \<and> name \<noteq> [] \<and> CHR ''/'' \<notin> set name \<and> CHR '':'' \<notin> set name"
  then obtain pre r where s: "image_body img = (pre @ CHR ''/'' # name) @ CHR '':'' # r" "arch_hash_match r"
    "devkit_path (split_on CHR ''/'' pre)" "name \<noteq> []" "CHR ''/'' \<notin> set name" "CHR '':'' \<notin> set name" by auto
  have parts: "split_on CHR '':'' (image_body img) = split_on CHR '':'' (pre @ CHR ''/'' # name) @ [r]"
    unfolding s(1) by (rule split_on_last) (rule arch_hash_chars [OF s(2)])
  have "split_on CHR ''/'' (pre @ CHR ''/'' # name) = split_on CHR ''/'' pre @ [name]"
    by (rule split_on_last) (rule s(5))
  then show "IMAGE_PATTERN img = Some name"
    using s(2-) parts
    by (simp add: IMAGE_PATTERN_def Let_def split_on_join)
qed

text \<open>The part \<^verbatim>\<open>(?:.*/)?devkit(?:/.*)?\<close> of the expression.\<close>

definition devkit_prefix :: "string \<Rightarrow> bool" where
  "devkit_prefix pre =
     (nl \<notin> set pre \<and>
      (\<exists>x y. pre = x @ ''devkit'' @ y \<and> (x = [] \<or> (\<exists>x'. x = x' @ ''/'')) \<and> (y = [] \<or> (\<exists>y'. y = CHR ''/'' # y'))))"

lemma devkit_path_split: "devkit_path (split_on CHR ''/'' pre) \<longleftrightarrow> devkit_prefix pre"
proof -
  have "CHR ''/'' \<notin> set ''devkit''" by simp
  from in_split_on [OF this, of pre] show ?thesis
    unfolding devkit_path_def split_on_newline devkit_prefix_def by auto
qed

lemma image_body_iff:
  assumes "arch_hash_match r"
  shows "image_body img = pre @ ''/'' @ name @ '':'' @ r \<longleftrightarrow>
    (\<exists>tail. img = pre @ ''/'' @ name @ '':'' @ r @ tail \<and> (tail = [] \<or> tail = [nl]))"
proof
  assume b: "image_body img = pre @ ''/'' @ name @ '':'' @ r"
  show "\<exists>tail. img = pre @ ''/'' @ name @ '':'' @ r @ tail \<and> (tail = [] \<or> tail = [nl])"
  proof (cases "img \<noteq> [] \<and> last img = nl")
    case True
    then have "img = image_body img @ [nl]" by (simp add: image_body_def) (metis append_butlast_last_id)
    then have "img = (pre @ ''/'' @ name @ '':'' @ r) @ [nl]" using b by metis
    then show ?thesis by (intro exI [of _ "[nl]"]) simp
  next
    case False
    then have "image_body img = img" unfolding image_body_def by (simp only: if_False)
    then show ?thesis using b by (intro exI [of _ "[]"]) simp
  qed
next
  assume "\<exists>tail. img = pre @ ''/'' @ name @ '':'' @ r @ tail \<and> (tail = [] \<or> tail = [nl])"
  then show "image_body img = pre @ ''/'' @ name @ '':'' @ r"
    using arch_hash_chars(2,3) [OF assms] by (auto simp: image_body_def butlast_append)
qed

text \<open>
  C17. The matcher accepts exactly the language of the regular expression \<^verbatim>\<open>IMAGE_PATTERN\<close>, and what it
  returns is its first group: the image name before the colon.
\<close>

theorem IMAGE_PATTERN_language:
  "IMAGE_PATTERN img = Some name \<longleftrightarrow>
     (\<exists>pre arch sha tail. img = pre @ ''/'' @ name @ '':'' @ arch @ ''-'' @ sha @ tail \<and> devkit_prefix pre \<and>
        name \<noteq> [] \<and> CHR ''/'' \<notin> set name \<and> CHR '':'' \<notin> set name \<and>
        arch \<noteq> [] \<and> list_all is_arch_char arch \<and> length sha = 64 \<and> list_all is_hex sha \<and>
        (tail = [] \<or> tail = [nl]))" (is "_ = ?R")
proof
  assume "IMAGE_PATTERN img = Some name"
  then obtain pre r where p: "image_body img = pre @ ''/'' @ name @ '':'' @ r" "arch_hash_match r" "devkit_prefix pre"
    "name \<noteq> [] \<and> CHR ''/'' \<notin> set name \<and> CHR '':'' \<notin> set name"
    unfolding IMAGE_PATTERN_body devkit_path_split by blast
  obtain tail where t: "img = pre @ ''/'' @ name @ '':'' @ r @ tail" "tail = [] \<or> tail = [nl]"
    using image_body_iff [OF p(2)] p(1) by blast
  obtain arch sha where "r = arch @ ''-'' @ sha" "arch \<noteq> []" "list_all is_arch_char arch" "length sha = 64" "list_all is_hex sha"
    using p(2) unfolding arch_hash_match_iff by blast
  with p t show ?R by (intro exI [of _ pre] exI [of _ arch] exI [of _ sha] exI [of _ tail]) simp
next
  assume ?R
  then obtain pre arch sha tail where p: "img = pre @ ''/'' @ name @ '':'' @ (arch @ ''-'' @ sha) @ tail" "devkit_prefix pre"
    "name \<noteq> [] \<and> CHR ''/'' \<notin> set name \<and> CHR '':'' \<notin> set name" "arch \<noteq> []" "list_all is_arch_char arch"
    "length sha = 64" "list_all is_hex sha" "tail = [] \<or> tail = [nl]" by auto
  then have m: "arch_hash_match (arch @ ''-'' @ sha)" unfolding arch_hash_match_iff by blast
  then have "image_body img = pre @ ''/'' @ name @ '':'' @ (arch @ ''-'' @ sha)"
    using image_body_iff [OF m] p by blast
  then show "IMAGE_PATTERN img = Some name"
    unfolding IMAGE_PATTERN_body devkit_path_split using p m by blast
qed

section \<open>What is removed\<close>

definition allowed :: "string \<Rightarrow> bool" where
  "allowed img = (case IMAGE_PATTERN img of None \<Rightarrow> False | Some name \<Rightarrow> name \<in> set ALLOWED_IMAGE_NAMES)"

lemma filter_allowed_result: "fst (filter_allowed_images imgs w) = Inr (filter allowed imgs)"
proof (induction imgs arbitrary: w)
  case (Cons img imgs)
  obtain w1 where w1: "filter_allowed_images imgs w = (Inr (filter allowed imgs), w1)"
    using Cons [of w] by (metis fst_conv surj_pair)
  have "allowed img = (case IMAGE_PATTERN img of None \<Rightarrow> False | Some name \<Rightarrow> name \<in> set ALLOWED_IMAGE_NAMES)"
    by (simp only: allowed_def)
  then show ?case using Cons w1 by (auto simp: bindM_run split: option.splits)
qed simp

lemma reader_filter_allowed: "reader (filter_allowed_images imgs)"
  by (induction imgs) (simp_all only: filter_allowed_images.simps, (intro reader_intros, assumption?)+)

lemma reader_ignored: "reader (get_ignored_images cfg paths)"
  unfolding get_ignored_images_def by (intro reader_intros reader_all_tags)

lemma reader_image_prefix: "reader (get_image_prefix cfg)"
  unfolding get_image_prefix_def by (intro reader_intros)

text \<open>An image that is not one of the current tags, where these can be computed.\<close>

definition unprotected :: "path \<Rightarrow> path list \<Rightarrow> world \<Rightarrow> string \<Rightarrow> bool" where
  "unprotected cfg paths w img =
     (case fst (get_all_docker_image_tags cfg paths [] w) of
        Inr tags \<Rightarrow> img \<notin> set tags
      | Inl e \<Rightarrow> is_exception e)"

lemma ignored_result:
  assumes "get_ignored_images cfg paths w = (Inr tags, w')" "img \<notin> set tags"
  shows "unprotected cfg paths w img"
  using assms
  by (auto simp: get_ignored_images_def unprotected_def catchM_def bindM_run
      split: prod.splits sum.splits if_splits)

definition listing_keeps_files :: "world \<Rightarrow> bool" where
  "listing_keeps_files w = (\<forall>tr fs p days. snd (w_exec w tr fs (images_cmd p days)) = fs)"

lemma get_images_files:
  assumes "listing_keeps_files w" "get_images p days w = (r, w')"
  shows "same_files w w'"
proof -
  obtain res where ex: "w_exec w (w_trace w) (w_fs w) (images_cmd p days) = (res, w_fs w)"
    using assms(1) by (metis listing_keeps_files_def prod.collapse)
  show ?thesis
    using assms(2)
    by (cases res)
      (auto simp: get_images_def catchM_def bindM_run run_checked_def run_proc_def ex same_files_def
        same_setting_def split: if_splits)
qed

lemma to_cleanup_result:
  assumes "listing_keeps_files w" "get_images_to_cleanup cfg paths days w = (Inr imgs, w')" "img \<in> set imgs"
  shows "allowed img \<and> unprotected cfg paths w img"
proof -
  obtain p w1 where p: "get_image_prefix cfg w = (Inr p, w1)"
    using assms(2) by (cases "get_image_prefix cfg w") (auto simp: get_images_to_cleanup_def bindM_Inr)
  have f1: "same_files w w1" using reader_files [OF reader_image_prefix, of w] p by (metis snd_conv)
  then have k1: "listing_keeps_files w1"
    using assms(1) by (simp add: listing_keeps_files_def same_files_def same_setting_def)
  from assms(2,3) p obtain all w2 where l: "get_images p days w1 = (Inr all, w2)"
    and rest: "bindM (filter_allowed_images all) (\<lambda>allowed_images.
       if allowed_images = [] then bindM (log_info ''No allowed images found for cleanup.'') (\<lambda>_. retM [])
       else
       bindM (get_ignored_images cfg paths) (\<lambda>ignored_images.
       let all_to_cleanup = filter (\<lambda>img. img \<notin> set ignored_images) allowed_images
       in if all_to_cleanup = [] then
            bindM (log_info ''All found images are in the ignore list. Nothing to clean up.'') (\<lambda>_. retM [])
          else
            bindM (log_info (''Found '' @ str_nat (length all_to_cleanup) @ '' images to clean up.'')) (\<lambda>_.
              retM all_to_cleanup))) w2 = (Inr imgs, w')"
    by (auto simp: get_images_to_cleanup_def bindM_run split: prod.splits sum.splits if_splits)
  have f2: "same_files w1 w2" by (rule get_images_files [OF k1 l])
  obtain w3 where f: "filter_allowed_images all w2 = (Inr (filter allowed all), w3)"
    using filter_allowed_result [of all w2] by (metis fst_conv surj_pair)
  have f3: "same_files w2 w3" using reader_files [OF reader_filter_allowed, of w2] f by (metis snd_conv)
  from rest f assms(3) obtain tags w4 where i: "get_ignored_images cfg paths w3 = (Inr tags, w4)"
    and img: "img \<in> set (filter allowed all)" "img \<notin> set tags"
    by (auto simp: bindM_run Let_def split: prod.splits sum.splits if_splits)
  have "unprotected cfg paths w3 img" by (rule ignored_result [OF i img(2)])
  moreover have "same_files w w3" using f1 f2 f3 files.trans by blast
  ultimately have "unprotected cfg paths w img"
    using reader_fst [OF reader_all_tags] by (simp add: unprotected_def)
  then show ?thesis using img(1) by simp
qed

section \<open>The commands\<close>

definition removals :: "string set \<Rightarrow> string list set" where
  "removals T = rmi_cmd ` T"

lemma cmds_keeps_report: "cmds.keeps C (report_removal tag rc out err)"
  unfolding report_removal_def log_lines_def by (intro cmds_keeps)

lemma cmds_keeps_remove_image: "rmi_cmd tag \<in> C \<Longrightarrow> cmds.keeps C (remove_image polls c tag)"
  unfolding remove_image_def await_removal_def by (intro cmds_keeps cmds_keeps_report)

lemma cmds_keeps_remove_images: "rmi_cmd ` set tags \<subseteq> C \<Longrightarrow> cmds.keeps C (remove_images polls c tags)"
proof (induction tags arbitrary: c)
  case (Cons tag tags)
  then have "cmds.keeps C (remove_images polls c tags)" for c by simp
  then show ?case
    unfolding remove_images.simps using Cons.prems by (intro cmds_keeps cmds_keeps_remove_image) auto
qed (unfold remove_images.simps, rule cmds.keeps_retM)

lemma cmds_keeps_batch: "rmi_cmd ` set tags \<subseteq> C \<Longrightarrow> cmds.keeps C (cleanup_images_batch polls c tags)"
  unfolding cleanup_images_batch_def by (intro cmds_keeps cmds_keeps_remove_images)

lemma cmds_keeps_batches:
  "(\<And>b. b \<in> set bs \<Longrightarrow> rmi_cmd ` set b \<subseteq> C) \<Longrightarrow> cmds.keeps C (cleanup_batches polls c bs)"
proof (induction bs arbitrary: c)
  case (Cons b bs)
  then have "cmds.keeps C (cleanup_batches polls c bs)" for c by simp
  then show ?case
    unfolding cleanup_batches.simps using Cons.prems by (intro cmds_keeps cmds_keeps_batch) auto
qed (unfold cleanup_batches.simps, rule cmds.keeps_retM)

lemma concat_chunks: "0 < n \<Longrightarrow> concat (chunks n xs) = xs"
  by (induction n xs rule: chunks.induct) (subst chunks.simps, auto)

lemma chunks_length: "b \<in> set (chunks n xs) \<Longrightarrow> 0 < length b \<and> length b \<le> n"
proof (induction n xs rule: chunks.induct)
  case (1 n xs)
  show ?case
  proof (cases "n = 0 \<or> xs = []")
    case True
    then show ?thesis using 1(2) by (subst (asm) chunks.simps) simp
  next
    case False
    then have "b = take n xs \<or> b \<in> set (chunks n (drop n xs))" using 1(2) by (subst (asm) chunks.simps) simp
    then show ?thesis using 1(1) [OF False] False by auto
  qed
qed

lemma batches_members: "batches k xs = Inr bs \<Longrightarrow> b \<in> set bs \<Longrightarrow> set b \<subseteq> set xs"
  using concat_chunks [of "nat k" xs] by (auto simp: batches_def split: if_splits)

lemma cmds_keeps_to_cleanup:
  "(\<And>p. images_cmd p days \<in> C) \<Longrightarrow> cmds.keeps C (get_images_to_cleanup cfg paths days)"
  unfolding get_images_to_cleanup_def get_images_def Let_def
  by (intro cmds_keeps reader_cmds [OF reader_ignored] reader_cmds [OF reader_image_prefix]
      reader_cmds [OF reader_filter_allowed])

text \<open>
  C18. A cleanup never removes an image that it should keep: apart from the listing, the only
  commands it runs remove an image whose tag has the expected form and whose name is in the allow
  list, and which is not one of the tags of the current configuration, unless computing these tags
  fails with an exception.
\<close>

theorem cleanup_images_safe:
  assumes "listing_keeps_files w"
  shows "\<exists>evs. w_trace (snd (cleanup_images polls c cfg paths n days w)) = w_trace w @ evs \<and>
    set (execs evs) \<subseteq> range (\<lambda>p. images_cmd p days) \<union> rmi_cmd ` {t. allowed t \<and> unprotected cfg paths w t}"
proof -
  let ?C = "range (\<lambda>p. images_cmd p days) \<union> rmi_cmd ` {t. allowed t \<and> unprotected cfg paths w t}"
  obtain is_set c' where p: "event_poll c = (is_set, c')" by fastforce
  obtain r w1 where g: "get_images_to_cleanup cfg paths days w = (r, w1)" by fastforce
  have first: "runs_only ?C w w1" by (rule cmds.keepsD [OF cmds_keeps_to_cleanup g]) simp
  have "runs_only ?C w (snd (cleanup_images polls c cfg paths n days w))"
  proof (cases "is_set \<or> (\<exists>e. r = Inl e)")
    case True
    then show ?thesis using first cmds.refl by (auto simp: cleanup_images_def p bindM_run g)
  next
    case False
    then obtain imgs where r: "r = Inr imgs" by (cases r) auto
    have ok: "rmi_cmd ` set imgs \<subseteq> ?C" using to_cleanup_result [OF assms] g by (auto simp: r)
    have "cmds.keeps ?C (bindM (liftM (batches n imgs)) (\<lambda>bs. bindM (cleanup_batches polls c' bs) (\<lambda>_. retM ())))"
    proof (cases "batches n imgs")
      case (Inr bs)
      then have "\<And>b. b \<in> set bs \<Longrightarrow> rmi_cmd ` set b \<subseteq> ?C" using batches_members ok by blast
      then have "cmds.keeps ?C (bindM (cleanup_batches polls c' bs) (\<lambda>_. retM ()))"
        by (intro cmds_keeps cmds_keeps_batches)
      then show ?thesis by (simp add: Inr bindM_def cmds.keeps_def)
    qed (simp add: bindM_def cmds.keeps_def cmds.refl)
    then have "runs_only ?C w1 (snd (bindM (liftM (batches n imgs))
        (\<lambda>bs. bindM (cleanup_batches polls c' bs) (\<lambda>_. retM ())) w1))"
      by (simp add: cmds.keeps_def)
    then show ?thesis using first False cmds.trans by (simp add: cleanup_images_def p bindM_run [of "get_images_to_cleanup _ _ _"] g r)
  qed
  then show ?thesis by (simp add: runs_only_def)
qed

lemma sample_listing: "listing_keeps_files sample_world"
  by (auto simp: listing_keeps_files_def sample_world_def sample_docker_def images_cmd_def)

theorem cleanup_images_safe_witness:
  "\<exists>evs. w_trace (snd (cleanup_images (\<lambda>_. 1) None (path_of ''/devkit.json'') [] 4 7 sample_world)) =
       w_trace sample_world @ evs \<and>
     set (execs evs) \<subseteq> range (\<lambda>p. images_cmd p 7) \<union>
       rmi_cmd ` {t. allowed t \<and> unprotected (path_of ''/devkit.json'') [] sample_world t}"
  by (rule cleanup_images_safe [OF sample_listing])

text \<open>
  C19. A positive batch size cuts the list of images into non-empty batches of at most that size, in
  order and without a loss; a negative one gives no batch at all, and 0 is a \<^verbatim>\<open>ValueError\<close>.
\<close>

theorem batches_partition:
  "case batches k xs of
     Inl e \<Rightarrow> k = 0 \<and> e = ValueError ''range() arg 3 must not be zero''
   | Inr bs \<Rightarrow> k \<noteq> 0 \<and> concat bs = (if 0 < k then xs else []) \<and>
       list_all (\<lambda>b. 0 < length b \<and> int (length b) \<le> k) bs"
  using concat_chunks [of "nat k" xs] chunks_length [of _ "nat k" xs]
  by (fastforce simp: batches_def list_all_iff)

section \<open>Cancellation\<close>

text \<open>An action that runs at most as many commands as the event is still read as unset, and leaves the
  event, which \<open>g\<close> reads from its result, with the rest.\<close>

definition bounded :: "('a \<Rightarrow> cancel) \<Rightarrow> nat \<Rightarrow> 'a io \<Rightarrow> bool" where
  "bounded g k m =
     (\<forall>w r w'. m w = (r, w') \<longrightarrow>
        (\<exists>evs. w_trace w' = w_trace w @ evs \<and> length (execs evs) \<le> k \<and>
           (\<forall>x. r = Inr x \<longrightarrow> (\<exists>j. g x = Some j \<and> length (execs evs) + j \<le> k))))"

lemma boundedD:
  assumes "bounded g k m" "m w = (r, w')"
  obtains evs where "w_trace w' = w_trace w @ evs" "length (execs evs) \<le> k"
    "\<And>x. r = Inr x \<Longrightarrow> \<exists>j. g x = Some j \<and> length (execs evs) + j \<le> k"
proof -
  from assms have "\<exists>evs. w_trace w' = w_trace w @ evs \<and> length (execs evs) \<le> k \<and>
           (\<forall>x. r = Inr x \<longrightarrow> (\<exists>j. g x = Some j \<and> length (execs evs) + j \<le> k))"
    by (simp add: bounded_def)
  then show thesis using that by blast
qed

lemma boundedI:
  assumes "\<And>w r w'. m w = (r, w') \<Longrightarrow>
    \<exists>evs. w_trace w' = w_trace w @ evs \<and> length (execs evs) \<le> k \<and>
           (\<forall>x. r = Inr x \<longrightarrow> (\<exists>j. g x = Some j \<and> length (execs evs) + j \<le> k))"
  shows "bounded g k m"
  unfolding bounded_def using assms by blast

lemma bounded_retM: "g x = Some j \<Longrightarrow> j \<le> k \<Longrightarrow> bounded g k (retM x)"
  by (rule boundedI) auto

lemma bounded_bindM:
  assumes "bounded g k m" "\<And>x j. g x = Some j \<Longrightarrow> bounded h j (f x)"
  shows "bounded h k (bindM m f)"
proof (rule boundedI)
  fix w r w'
  assume run: "bindM m f w = (r, w')"
  obtain r1 w1 where m: "m w = (r1, w1)" by fastforce
  obtain evs where e: "w_trace w1 = w_trace w @ evs" "length (execs evs) \<le> k"
    "\<And>x. r1 = Inr x \<Longrightarrow> \<exists>j. g x = Some j \<and> length (execs evs) + j \<le> k"
    using boundedD [OF assms(1) m] by blast
  show "\<exists>evs. w_trace w' = w_trace w @ evs \<and> length (execs evs) \<le> k \<and>
           (\<forall>x. r = Inr x \<longrightarrow> (\<exists>j. h x = Some j \<and> length (execs evs) + j \<le> k))"
  proof (cases r1)
    case (Inl x)
    then show ?thesis using run m e by (auto simp: bindM_run)
  next
    case (Inr x)
    obtain j where j: "g x = Some j" "length (execs evs) + j \<le> k" using e(3) [OF Inr] by blast
    have rest: "f x w1 = (r, w')" using run m by (simp add: bindM_run Inr)
    obtain evs' where e': "w_trace w' = w_trace w1 @ evs'" "length (execs evs') \<le> j"
      "\<And>y. r = Inr y \<Longrightarrow> \<exists>i. h y = Some i \<and> length (execs evs') + i \<le> j"
      using boundedD [OF assms(2) [OF j(1)] rest] by blast
    have "\<exists>i. h y = Some i \<and> length (execs (evs @ evs')) + i \<le> k" if y: "r = Inr y" for y
    proof -
      obtain i where "h y = Some i" "length (execs evs') + i \<le> j" using e'(3) [OF y] by blast
      then show ?thesis using j(2) by (intro exI [of _ i]) simp
    qed
    moreover have "w_trace w' = w_trace w @ evs @ evs'" "length (execs (evs @ evs')) \<le> k"
      using e(1) e'(1,2) j(2) by simp_all
    ultimately show ?thesis by blast
  qed
qed

lemma wait_process_some: "wait_process n (Some k) = (b, c) \<Longrightarrow> \<exists>j\<le>k. c = Some j"
proof (induction n arbitrary: k)
  case (Suc n)
  show ?case
  proof (cases k)
    case 0
    then show ?thesis using Suc.prems by simp
  next
    case (Suc k')
    then obtain j where "j \<le> k'" "c = Some j" using Suc.prems Suc.IH [of k'] by auto
    then show ?thesis using \<open>k = Suc k'\<close> by (intro exI [of _ j]) simp
  qed
qed auto

lemma no_execs: "cmds.keeps {} m \<Longrightarrow> m w = (r, w') \<Longrightarrow> \<exists>evs. w_trace w' = w_trace w @ evs \<and> execs evs = []"
  by (drule (1) cmds.keepsD) (auto simp: runs_only_def)

lemma run_proc_trace: "run_proc cmd w = (r, w') \<Longrightarrow> w_trace w' = w_trace w @ [Exec cmd]"
  by (auto simp: run_proc_def Let_def split: prod.splits proc.splits)

lemma await_removal_trace:
  "\<exists>w2 evs. await_removal polls c tag result w = (Inr (wait_process (polls tag) c), w2) \<and>
     w_trace w2 = w_trace w @ evs \<and> execs evs = []"
proof -
  obtain rc out err where res: "result = (rc, out, err)" by (cases result)
  obtain b c' where wt: "wait_process (polls tag) c = (b, c')" by fastforce
  have "raises_in {} (report_removal tag rc out err)"
    unfolding report_removal_def log_lines_def by (intro raises_in_intros)
  then obtain w2 where rep: "report_removal tag rc out err w = (Inr (), w2)"
    by (cases "report_removal tag rc out err w") (metis empty_iff old.unit.exhaust raises_inD sum.exhaust)
  obtain evs where "w_trace w2 = w_trace w @ evs" "execs evs = []"
    using no_execs [OF cmds_keeps_report rep] by blast
  then show ?thesis by (cases b) (simp_all add: await_removal_def res wt bindM_run rep)
qed

text \<open>One removal runs exactly its command, whatever becomes of it.\<close>

lemma remove_image_trace:
  assumes "remove_image polls c tag w = (r, w')"
  shows "\<exists>evs. w_trace w' = w_trace w @ evs \<and> execs evs = [rmi_cmd tag]"
    and "r = Inl KeyboardInterrupt \<and> fst (w_exec w (w_trace w @ [Log INFO (''Removing image: '' @ tag)]) (w_fs w) (rmi_cmd tag)) = Interrupt
      \<or> r = Inr (False, c) \<or> r = Inr (wait_process (polls tag) c)"
proof -
  define w0 where "w0 = w\<lparr>w_trace := w_trace w @ [Log INFO (''Removing image: '' @ tag)]\<rparr>"
  obtain r1 w1 where p: "run_proc (rmi_cmd tag) w0 = (r1, w1)" by fastforce
  have w1: "w_trace w1 = w_trace w @ [Log INFO (''Removing image: '' @ tag), Exec (rmi_cmd tag)]"
    using run_proc_trace [OF p] by (simp add: w0_def)
  have err: "e = no_such_file ''docker'' \<or> e = KeyboardInterrupt \<and> fst (w_exec w (w_trace w0) (w_fs w) (rmi_cmd tag)) = Interrupt"
    if "r1 = Inl e" for e
    using p that by (auto simp: run_proc_def rmi_cmd_def Let_def w0_def split: prod.splits proc.splits)
  have run: "remove_image polls c tag w = catchM (bindM (run_proc (rmi_cmd tag)) (await_removal polls c tag))
       is_exception
       (\<lambda>e. bindM (log_warning (''Error during image removal of '' @ tag @ '': '' @ exn_str e)) (\<lambda>_.
              retM (False, c))) w0"
    by (simp add: remove_image_def bindM_run w0_def)
  have "(\<exists>evs. w_trace w' = w_trace w @ evs \<and> execs evs = [rmi_cmd tag]) \<and>
    (r = Inl KeyboardInterrupt \<and> fst (w_exec w (w_trace w0) (w_fs w) (rmi_cmd tag)) = Interrupt
      \<or> r = Inr (False, c) \<or> r = Inr (wait_process (polls tag) c))"
  proof (cases r1)
    case (Inl e)
    then show ?thesis using assms err [OF Inl] w1 by (auto simp: run catchM_def bindM_run p)
  next
    case (Inr result)
    obtain w2 evs where "await_removal polls c tag result w1 = (Inr (wait_process (polls tag) c), w2)"
      "w_trace w2 = w_trace w1 @ evs" "execs evs = []" using await_removal_trace by blast
    then show ?thesis using assms w1 by (auto simp: run catchM_def bindM_run p Inr)
  qed
  then show "\<exists>evs. w_trace w' = w_trace w @ evs \<and> execs evs = [rmi_cmd tag]"
    and "r = Inl KeyboardInterrupt \<and> fst (w_exec w (w_trace w @ [Log INFO (''Removing image: '' @ tag)]) (w_fs w) (rmi_cmd tag)) = Interrupt
      \<or> r = Inr (False, c) \<or> r = Inr (wait_process (polls tag) c)"
    by (simp_all add: w0_def)
qed

lemma bounded_remove_image: "bounded snd (Suc k) (remove_image polls (Some k) tag)"
proof (rule boundedI)
  fix w r w'
  assume run: "remove_image polls (Some k) tag w = (r, w')"
  obtain evs where e: "w_trace w' = w_trace w @ evs" "execs evs = [rmi_cmd tag]"
    using remove_image_trace(1) [OF run] by blast
  obtain b j where "wait_process (polls tag) (Some k) = (b, Some j)" "j \<le> k"
    using wait_process_some [of "polls tag" k] by (cases "wait_process (polls tag) (Some k)") blast
  then have "\<exists>j\<le>k. snd x = Some j" if "r = Inr x" for x
    using remove_image_trace(2) [OF run] that by auto
  then show "\<exists>evs. w_trace w' = w_trace w @ evs \<and> length (execs evs) \<le> Suc k \<and>
     (\<forall>x. r = Inr x \<longrightarrow> (\<exists>j. snd x = Some j \<and> length (execs evs) + j \<le> Suc k))"
    using e by fastforce
qed

lemma bounded_remove_images: "bounded (\<lambda>c. c) k (remove_images polls (Some k) tags)"
proof (induction tags arbitrary: k)
  case Nil
  then show ?case unfolding remove_images.simps by (rule bounded_retM [of _ _ k]) simp_all
next
  case (Cons tag tags)
  show ?case
  proof (cases k)
    case 0
    then show ?thesis by (simp add: bounded_retM del: retM_run)
  next
    case (Suc j)
    have "bounded (\<lambda>c. c) i (case x of (stop, c') \<Rightarrow> if stop then retM c' else remove_images polls c' tags)"
      if "snd x = Some i" for x i
      using that Cons [of i] by (cases x) (auto simp: bounded_retM simp del: retM_run)
    from bounded_bindM [OF bounded_remove_image this] show ?thesis by (simp add: Suc)
  qed
qed

lemma bounded_log: "bounded (\<lambda>c. c) k m \<Longrightarrow> bounded (\<lambda>c. c) k (bindM (emit (Log l s)) (\<lambda>_. m))"
proof (rule boundedI)
  fix w r w'
  assume b: "bounded (\<lambda>c. c) k m" and run: "bindM (emit (Log l s)) (\<lambda>_. m) w = (r, w')"
  then have rest: "m (w\<lparr>w_trace := w_trace w @ [Log l s]\<rparr>) = (r, w')" by (simp add: bindM_run)
  obtain evs where "w_trace w' = (w_trace w @ [Log l s]) @ evs" "length (execs evs) \<le> k"
    "\<And>x. r = Inr x \<Longrightarrow> \<exists>j. x = Some j \<and> length (execs evs) + j \<le> k"
    using boundedD [OF b rest] by auto
  then show "\<exists>evs. w_trace w' = w_trace w @ evs \<and> length (execs evs) \<le> k \<and>
     (\<forall>x. r = Inr x \<longrightarrow> (\<exists>j. x = Some j \<and> length (execs evs) + j \<le> k))"
    by (intro exI [of _ "Log l s # evs"]) simp
qed

lemma bounded_batch: "bounded (\<lambda>c. c) k (cleanup_images_batch polls (Some k) tags)"
  using bounded_log [OF bounded_remove_images] by (simp add: cleanup_images_batch_def bounded_retM del: retM_run)

lemma bounded_batches: "bounded (\<lambda>c. c) k (cleanup_batches polls (Some k) bs)"
proof (induction bs arbitrary: k)
  case Nil
  then show ?case unfolding cleanup_batches.simps by (rule bounded_retM [of _ _ k]) simp_all
next
  case (Cons b bs)
  have step: "bounded (\<lambda>c. c) j (case event_poll c of (is_set, c') \<Rightarrow> if is_set then retM c' else cleanup_batches polls c' bs)"
    if "c = Some j" for c j
  proof (cases j)
    case 0
    then show ?thesis using that by (simp add: bounded_retM del: retM_run)
  next
    case (Suc i)
    have "bounded (\<lambda>c. c) (Suc i) (cleanup_batches polls (Some i) bs)"
      using Cons [of i] unfolding bounded_def by (meson le_SucI)
    then show ?thesis using that by (simp add: Suc)
  qed
  show ?case unfolding cleanup_batches.simps by (rule bounded_bindM [OF bounded_batch step])
qed

lemma images_not_rmi: "rmi_cmd t \<notin> range (\<lambda>p. images_cmd p d)"
  by (auto simp: images_cmd_def rmi_cmd_def)

lemma filter_rmi_listing:
  "set cs \<subseteq> range (\<lambda>p. images_cmd p d) \<Longrightarrow> filter (\<lambda>cmd. cmd \<in> range rmi_cmd) cs = []"
  using images_not_rmi by (fastforce simp: filter_empty_conv)

text \<open>
  C20. Cancellation takes effect: when the event is read as unset only \<open>k\<close> times, fewer than \<open>k\<close>
  removals are ever started, and none at all where it is set from the start.
\<close>

theorem cleanup_images_cancelled:
  "\<exists>evs. w_trace (snd (cleanup_images polls (Some k) cfg paths n days w)) = w_trace w @ evs \<and>
     length (filter (\<lambda>cmd. cmd \<in> range rmi_cmd) (execs evs)) \<le> k - 1"
proof (cases k)
  case 0
  then show ?thesis by (intro exI [of _ "[]"]) (simp add: cleanup_images_def)
next
  case (Suc j)
  obtain r w1 where g: "get_images_to_cleanup cfg paths days w = (r, w1)" by fastforce
  obtain evs where e: "w_trace w1 = w_trace w @ evs" "set (execs evs) \<subseteq> range (\<lambda>p. images_cmd p days)"
  proof -
    have "runs_only (range (\<lambda>p. images_cmd p days)) w w1"
      by (rule cmds.keepsD [OF cmds_keeps_to_cleanup g]) simp
    then show thesis using that by (auto simp: runs_only_def)
  qed
  show ?thesis
  proof (cases "\<exists>imgs bs. r = Inr imgs \<and> batches n imgs = Inr bs")
    case False
    then have "snd (cleanup_images polls (Some k) cfg paths n days w) = w1"
      by (cases r) (auto simp: cleanup_images_def Suc bindM_run g split: sum.splits)
    then show ?thesis using e filter_rmi_listing [OF e(2)] by auto
  next
    case True
    then obtain imgs bs where r: "r = Inr imgs" "batches n imgs = Inr bs" by blast
    obtain r2 w2 where b: "cleanup_batches polls (Some j) bs w1 = (r2, w2)" by fastforce
    have w2: "snd (cleanup_images polls (Some k) cfg paths n days w) = w2"
      by (simp add: cleanup_images_def Suc bindM_run g r b split: sum.splits)
    obtain evs' where e': "w_trace w2 = w_trace w1 @ evs'" "length (execs evs') \<le> j"
      using boundedD [OF bounded_batches b] by blast
    have "length (filter (\<lambda>cmd. cmd \<in> range rmi_cmd) (execs (evs @ evs'))) \<le> j"
      using filter_rmi_listing [OF e(2)] le_trans [OF length_filter_le e'(2)] by simp
    then show ?thesis using w2 e(1) e'(1) by (intro exI [of _ "evs @ evs'"]) (simp add: Suc)
  qed
qed

section \<open>An undisturbed cleanup\<close>

definition never_interrupted :: "world \<Rightarrow> bool" where
  "never_interrupted w = (\<forall>tr fs cmd. fst (w_exec w tr fs cmd) \<noteq> Interrupt)"

lemma wait_process_none: "wait_process n None = (False, None)"
  by (induction n) simp_all

lemma setting_keeps_remove_image: "setting.keeps (remove_image polls c tag)"
  unfolding remove_image_def await_removal_def report_removal_def log_lines_def by (intro setting_keeps)

lemma remove_images_all:
  "never_interrupted w \<Longrightarrow>
   \<exists>w'. remove_images polls None tags w = (Inr None, w') \<and>
     execs (w_trace w') = execs (w_trace w) @ map rmi_cmd tags \<and> never_interrupted w'"
proof (induction tags arbitrary: w)
  case (Cons tag tags)
  obtain r w1 where run: "remove_image polls None tag w = (r, w1)" by fastforce
  have r: "r = Inr (False, None)"
    using remove_image_trace(2) [OF run] Cons.prems by (auto simp: wait_process_none never_interrupted_def)
  obtain evs where e: "w_trace w1 = w_trace w @ evs" "execs evs = [rmi_cmd tag]"
    using remove_image_trace(1) [OF run] by blast
  have "never_interrupted w1"
    using setting.keepsD [OF setting_keeps_remove_image run] Cons.prems
    by (simp add: never_interrupted_def same_setting_def)
  from Cons.IH [OF this] show ?case using run e by (auto simp: bindM_run r)
qed simp

lemma cleanup_batches_all:
  "never_interrupted w \<Longrightarrow>
   \<exists>w'. cleanup_batches polls None bs w = (Inr None, w') \<and>
     execs (w_trace w') = execs (w_trace w) @ map rmi_cmd (concat bs) \<and> never_interrupted w'"
proof (induction bs arbitrary: w)
  case (Cons b bs)
  have "\<exists>w1. cleanup_images_batch polls None b w = (Inr None, w1) \<and>
      execs (w_trace w1) = execs (w_trace w) @ map rmi_cmd b \<and> never_interrupted w1"
  proof (cases "b = []")
    case False
    let ?w = "w\<lparr>w_trace := w_trace w @ [Log INFO (''Cleaning up '' @ str_nat (length b) @ '' images in this batch.'')]\<rparr>"
    have "never_interrupted ?w" using Cons.prems by (simp add: never_interrupted_def)
    from remove_images_all [OF this, of polls b] show ?thesis
      using False by (simp add: cleanup_images_batch_def bindM_run)
  qed (simp add: cleanup_images_batch_def Cons.prems)
  then obtain w1 where b: "cleanup_images_batch polls None b w = (Inr None, w1)"
    "execs (w_trace w1) = execs (w_trace w) @ map rmi_cmd b" "never_interrupted w1" by blast
  from Cons.IH [OF b(3)] show ?case using b by (auto simp: bindM_run)
qed simp

text \<open>
  C21. When nobody cancels or interrupts the cleanup and the batch size is positive, it ends, and it
  has tried to remove every image it has found, once and in order, also where some removals fail.
\<close>

theorem cleanup_images_complete:
  assumes "never_interrupted w1" "0 < n"
    and "get_images_to_cleanup cfg paths days w = (Inr imgs, w1)"
  shows "\<exists>w'. cleanup_images polls None cfg paths n days w = (Inr (), w') \<and>
    execs (w_trace w') = execs (w_trace w1) @ map rmi_cmd imgs"
proof -
  have "batches n imgs = Inr (chunks (nat n) imgs)" "concat (chunks (nat n) imgs) = imgs"
    using assms(2) by (simp_all add: batches_def concat_chunks)
  then show ?thesis
    using cleanup_batches_all [OF assms(1), of polls "chunks (nat n) imgs"]
    by (auto simp: cleanup_images_def bindM_run assms(3))
qed

definition old_image :: string where
  "old_image = ''devkit/tool-env:amd64-'' @ replicate 64 CHR ''0''"

definition cleanup_world :: world where
  "cleanup_world = sample_world\<lparr>w_exec := (\<lambda>tr fs cmd. (Done 0 (if cmd = images_cmd ''devkit'' 7 then old_image else []) [], fs))\<rparr>"

lemma old_image_simps:
  "splitlines (strip old_image) = [old_image]" "allowed old_image"
  by code_simp+

lemma cleanup_world_tags:
  "w_fs w = Dir [] \<Longrightarrow> \<exists>w'. get_all_docker_image_tags (path_of ''/devkit.json'') [] [] w = (Inr [], w')"
proof -
  assume fs: "w_fs w = Dir []"
  have "exists_at (Dir []) [''devkit.json''] = False" "static_order (ts_init (sorter_graph f [])) = Inr []" for f
    by (code_simp, simp add: sorter_graph_def static_order_def ts_init_def ts_empty_def)
  moreover have "path_of ''/devkit.json'' = Path ''/'' [''devkit.json'']" by code_simp
  ultimately show ?thesis
    by (simp add: get_all_docker_image_tags_def init_builder_def load_config_def new_builder_def path_exists_def
        comps_def is_absolute_def bindM_run fs load_image_configs_def calculate_tags_def get_build_order_def
        build_order_all_def dependency_graph_def)
qed

lemma cleanup_world_images:
  "\<exists>w1. get_images_to_cleanup (path_of ''/devkit.json'') [] 7 cleanup_world = (Inr [old_image], w1) \<and>
     w_exec w1 = w_exec cleanup_world"
proof -
  let ?w = cleanup_world
  have fs: "w_fs ?w = Dir []" by (simp add: cleanup_world_def sample_world_def)
  have "exists_at (Dir []) [''devkit.json''] = False" "path_of ''/devkit.json'' = Path ''/'' [''devkit.json'']"
    by code_simp+
  then have p: "get_image_prefix (path_of ''/devkit.json'') ?w = (Inr ''devkit'', ?w)"
    by (simp add: get_image_prefix_def path_exists_def comps_def is_absolute_def bindM_run fs)
  define w1 where "w1 = ?w\<lparr>w_trace := w_trace ?w @ [Exec (images_cmd ''devkit'' 7)]\<rparr>"
  have l: "get_images ''devkit'' 7 ?w = (Inr [old_image], w1)"
    by (simp add: get_images_def catchM_def run_checked_def run_proc_def bindM_run w1_def cleanup_world_def
        old_image_simps(1))
  have fs1: "w_fs w1 = Dir []" using fs by (simp add: w1_def)
  obtain w2 where f: "filter_allowed_images [old_image] w1 = (Inr [old_image], w2)"
    using filter_allowed_result [of "[old_image]" w1] old_image_simps(2) by (cases "filter_allowed_images [old_image] w1") simp
  have s2: "same_files w1 w2" using reader_files [OF reader_filter_allowed, of w1] f by (metis snd_conv)
  then obtain w3 where t: "get_all_docker_image_tags (path_of ''/devkit.json'') [] [] w2 = (Inr [], w3)"
    using cleanup_world_tags [of w2] fs1 by (auto simp: same_files_def)
  then obtain w4 where i: "get_ignored_images (path_of ''/devkit.json'') [] w2 = (Inr [], w4)"
    by (simp add: get_ignored_images_def catchM_def bindM_run)
  have s4: "same_files w2 w4" using reader_files [OF reader_ignored, of w2] i by (metis snd_conv)
  have ex: "w_exec w4 = w_exec ?w"
    using s2 s4 by (simp add: same_files_def same_setting_def w1_def)
  show ?thesis
    using ex by (simp add: get_images_to_cleanup_def bindM_run p l f i Let_def del: filter_allowed_images.simps)
qed

theorem cleanup_images_complete_witness:
  "\<exists>w1 w'. get_images_to_cleanup (path_of ''/devkit.json'') [] 7 cleanup_world = (Inr [old_image], w1) \<and>
     cleanup_images (\<lambda>_. 3) None (path_of ''/devkit.json'') [] 4 7 cleanup_world = (Inr (), w') \<and>
     execs (w_trace w') = execs (w_trace w1) @ [rmi_cmd old_image]"
proof -
  obtain w1 where w1: "get_images_to_cleanup (path_of ''/devkit.json'') [] 7 cleanup_world = (Inr [old_image], w1)"
    "w_exec w1 = w_exec cleanup_world" using cleanup_world_images by blast
  have "never_interrupted w1" by (simp add: never_interrupted_def w1(2) cleanup_world_def)
  then show ?thesis using cleanup_images_complete [OF _ _ w1(1), of 4 "\<lambda>_. 3"] w1(1) by simp
qed

section \<open>The cleanup and the builder agree on the tags\<close>

lemma builder_tag_matches:
  assumes "namespace b = ''devkit'' \<or> (\<exists>ns. namespace b = ''devkit/'' @ ns)"
    and "nl \<notin> set (repo b) \<union> set (namespace b)" "arch b = ''amd64''"
    and "n \<in> set ALLOWED_IMAGE_NAMES"
  shows "IMAGE_PATTERN (get_image_tag b n (hexdigest s)) = Some n \<and> allowed (get_image_tag b n (hexdigest s))"
proof -
  let ?pre = "(if repo b \<noteq> [] then repo b @ ''/'' else []) @ namespace b"
  have n: "n \<noteq> []" "CHR ''/'' \<notin> set n" "CHR '':'' \<notin> set n"
    using assms(4) by (auto simp: ALLOWED_IMAGE_NAMES_def)
  have tag: "get_image_tag b n (hexdigest s) = ?pre @ ''/'' @ n @ '':'' @ ''amd64'' @ ''-'' @ hexdigest s @ []"
    using assms(3) by (simp add: get_image_tag_def Let_def)
  have pre: "devkit_prefix ?pre"
    unfolding devkit_prefix_def
  proof (intro conjI)
    show "nl \<notin> set ?pre" using assms(2) by simp
    obtain y where "namespace b = ''devkit'' @ y" "y = [] \<or> (\<exists>y'. y = CHR ''/'' # y')" using assms(1) by force
    then show "\<exists>x y. ?pre = x @ ''devkit'' @ y \<and> (x = [] \<or> (\<exists>x'. x = x' @ ''/'')) \<and> (y = [] \<or> (\<exists>y'. y = CHR ''/'' # y'))"
      by (intro exI [of _ "if repo b \<noteq> [] then repo b @ ''/'' else []"] exI [of _ y]) auto
  qed
  have chars: "list_all is_arch_char ''amd64''" by code_simp
  have "image_body (get_image_tag b n (hexdigest s)) = ?pre @ ''/'' @ n @ '':'' @ ''amd64-'' @ hexdigest s \<and>
      arch_hash_match (''amd64-'' @ hexdigest s)"
  proof -
    have m: "arch_hash_match (''amd64-'' @ hexdigest s)"
      unfolding arch_hash_match_iff using chars sha.digest_length sha.digest_hex
      by (intro exI [of _ "''amd64''"] exI [of _ "hexdigest s"]) simp
    then show ?thesis using image_body_iff [OF m, of "get_image_tag b n (hexdigest s)" ?pre n] tag by simp
  qed
  then have "IMAGE_PATTERN (get_image_tag b n (hexdigest s)) = Some n"
    unfolding IMAGE_PATTERN_body devkit_path_split using n pre by blast
  then show ?thesis using assms(4) by (simp add: allowed_def)
qed

text \<open>What the builder keeps of the registry settings.\<close>

definition same_registry :: "builder \<Rightarrow> builder \<Rightarrow> bool" where
  "same_registry b b' = (repo b' = repo b \<and> namespace b' = namespace b \<and> arch b' = arch b)"

lemma load_packages_registry: "load_image_packages b img settings w = (Inr b', w') \<Longrightarrow> same_registry b b'"
  by (auto simp: load_image_packages_def bindM_Inr same_registry_def split: if_splits)

lemma load_keys_registry: "load_image_keys b img settings = Inr b' \<Longrightarrow> same_registry b b'"
  by (auto simp: load_image_keys_def bindE_Inr same_registry_def split: if_splits)

lemma load_repositories_registry: "load_image_repositories b img settings = Inr b' \<Longrightarrow> same_registry b b'"
  by (auto simp: load_image_repositories_def bindE_Inr same_registry_def split: if_splits)

lemma load_settings_registry:
  assumes "load_image_settings b e w = (Inr b', w')"
  shows "same_registry b b'"
proof (cases e)
  case (Pair img settings)
  then obtain b1 b2 w1 where "load_image_packages b img settings w = (Inr b1, w1)"
    "load_image_keys b1 img settings = Inr b2" "load_image_repositories b2 img settings = Inr b'"
    using assms by (auto simp only: load_image_settings_def prod.case bindM_Inr liftM_run prod.inject)
  then show ?thesis
    using load_packages_registry load_keys_registry load_repositories_registry unfolding same_registry_def by metis
qed

lemma load_images_registry:
  assumes "load_images_config b config w = (Inr b', w')"
  shows "same_registry b b'"
proof -
  have "same_registry b1 b2"
    if "foldM load_image_settings b1 es w1 = (Inr b2, w2)" for es b1 b2 w1 w2
    using that
  proof (induction es arbitrary: b1 w1)
    case (Cons e es)
    then obtain b3 w3 where "load_image_settings b1 e w1 = (Inr b3, w3)" "foldM load_image_settings b3 es w3 = (Inr b2, w2)"
      by (auto simp only: foldM.simps bindM_Inr)
    then show ?case using load_settings_registry [of b1 e w1 b3 w3] Cons.IH [of b3 w3] by (simp add: same_registry_def)
  qed (simp add: same_registry_def)
  then show ?thesis using assms by (auto simp: load_images_config_def bindM_Inr same_registry_def split: if_splits)
qed

lemma load_config_registry:
  assumes "load_config (new_builder cfg paths) w = (Inr b, w')"
  shows "arch b = ''amd64''"
    and "exists_at (w_fs w) (comps w cfg) \<Longrightarrow> \<exists>bytes config. read_bytes cfg w = (Inr bytes, w) \<and>
      bindE (decode_text bytes) json_loads = Inr config \<and> parse_registry_config config = Inr (repo b, namespace b)"
    and "\<not> exists_at (w_fs w) (comps w cfg) \<Longrightarrow> repo b = [] \<and> namespace b = ''devkit''"
proof -
  have nb: "config_path (new_builder cfg paths) = cfg" "arch (new_builder cfg paths) = ''amd64''"
    "repo (new_builder cfg paths) = []" "namespace (new_builder cfg paths) = ''devkit''"
    by (simp_all add: new_builder_def)
  have absent: "b = new_builder cfg paths" if "\<not> exists_at (w_fs w) (comps w cfg)"
    using assms that by (simp add: load_config_def bindM_run path_exists_def nb)
  have present: "\<exists>bytes config. read_bytes cfg w = (Inr bytes, w) \<and>
      bindE (decode_text bytes) json_loads = Inr config \<and> parse_registry_config config = Inr (repo b, namespace b) \<and>
      arch b = ''amd64''"
    if "exists_at (w_fs w) (comps w cfg)"
  proof -
    have "bindM (read_bytes cfg) (\<lambda>bytes. catchM
         (bindM (liftM (bindE (decode_text bytes) json_loads)) (\<lambda>config.
          bindM (liftM (validate_config config CONFIG_SCHEMA [])) (\<lambda>_.
          bindM (liftM (json_in ''docker'' config)) (\<lambda>present.
          if \<not> present then retM (new_builder cfg paths) else
          bindM (liftM (load_registry_config (new_builder cfg paths) config)) (\<lambda>b1. load_images_config b1 config)))))
         is_value_error
         (\<lambda>e. bindM (log_error (''Could not load '' @ str_path cfg @ '': '' @ exn_str e)) (\<lambda>_. sys_exit 1))) w = (Inr b, w')"
      using assms that by (simp add: load_config_def bindM_run [of "getM _"] path_exists_def nb)
    then obtain bytes w2 config d w3 where r2: "read_bytes cfg w = (Inr bytes, w2)"
      and c: "bindE (decode_text bytes) json_loads = Inr config" "json_in ''docker'' config = Inr d"
      and rest2: "(if \<not> d then retM (new_builder cfg paths) else
          bindM (liftM (load_registry_config (new_builder cfg paths) config)) (\<lambda>b1. load_images_config b1 config)) w3 = (Inr b, w')"
      by (auto simp only: bindM_Inr catchM_Inr liftM_run emit_run raiseM_run prod.inject sum.inject sum.distinct)
    have r: "read_bytes cfg w = (Inr bytes, w)" using r2 read_bytes_same [of cfg w] by simp
    show ?thesis
    proof (cases d)
      case False
      then show ?thesis using r c rest2 by (auto simp: parse_registry_config_def nb)
    next
      case True
      then obtain rp ns where "parse_registry_config config = Inr (rp, ns)"
        "load_images_config ((new_builder cfg paths)\<lparr>repo := rp, namespace := ns\<rparr>) config w3 = (Inr b, w')"
        using rest2 by (auto simp: bindM_Inr load_registry_config_def bindE_Inr)
      then show ?thesis using r c(1) load_images_registry [of _ config w3 b w'] nb(2) by (auto simp: same_registry_def)
    qed
  qed
  show "arch b = ''amd64''" using absent present nb(2) by blast
  show "exists_at (w_fs w) (comps w cfg) \<Longrightarrow> \<exists>bytes config. read_bytes cfg w = (Inr bytes, w) \<and>
      bindE (decode_text bytes) json_loads = Inr config \<and> parse_registry_config config = Inr (repo b, namespace b)"
    using present by blast
  show "\<not> exists_at (w_fs w) (comps w cfg) \<Longrightarrow> repo b = [] \<and> namespace b = ''devkit''"
    using absent nb by simp
qed

lemma init_builder_registry:
  assumes "init_builder cfg paths w = (Inr b, w')"
  obtains b0 w0 where "load_config (new_builder cfg paths) w = (Inr b0, w0)" "repo b = repo b0"
    "namespace b = namespace b0" "arch b = arch b0"
  using assms by (auto simp: init_builder_def bindM_Inr)

lemma registry_namespace_shape:
  "parse_registry_config config = Inr (rp, ns) \<Longrightarrow> ns = ''devkit'' \<or> (\<exists>x. ns = ''devkit/'' @ x)"
  by (auto simp: parse_registry_config_def registry_namespace_def bindE_Inr split: if_splits)

text \<open>
  C22. The tags that the builder gives to the images of the allow list are tags that the cleanup
  recognises: for a builder loaded from a configuration whose registry settings hold no line feed,
  every tag of an allowed image is matched by the pattern, with the image's name as its group.
\<close>

theorem builder_tags_recognised:
  assumes "init_builder cfg paths w = (Inr b, w')" "nl \<notin> set (repo b) \<union> set (namespace b)"
    and "n \<in> set ALLOWED_IMAGE_NAMES"
  shows "IMAGE_PATTERN (get_image_tag b n (hexdigest s)) = Some n \<and> allowed (get_image_tag b n (hexdigest s))"
proof -
  obtain b0 w0 where l: "load_config (new_builder cfg paths) w = (Inr b0, w0)" "repo b = repo b0"
    "namespace b = namespace b0" "arch b = arch b0" using init_builder_registry [OF assms(1)] .
  have "namespace b = ''devkit'' \<or> (\<exists>ns. namespace b = ''devkit/'' @ ns)"
    using load_config_registry(2,3) [OF l(1)] registry_namespace_shape l(3) by metis
  then show ?thesis
    using builder_tag_matches assms(2,3) load_config_registry(1) [OF l(1)] l(4) by simp
qed

lemma cleanup_world_builder:
  "\<exists>w'. init_builder (path_of ''/devkit.json'') [] cleanup_world = (Inr (new_builder (path_of ''/devkit.json'') []), w')"
proof -
  have "exists_at (w_fs cleanup_world) [''devkit.json''] = False" "path_of ''/devkit.json'' = Path ''/'' [''devkit.json'']"
    by code_simp+
  then show ?thesis
    by (simp add: init_builder_def load_config_def new_builder_def path_exists_def comps_def is_absolute_def
        bindM_run load_image_configs_def)
qed

theorem builder_tags_recognised_witness:
  "IMAGE_PATTERN (get_image_tag (new_builder (path_of ''/devkit.json'') []) ''tool-env'' (hexdigest [])) = Some ''tool-env''"
proof -
  obtain w' where w': "init_builder (path_of ''/devkit.json'') [] cleanup_world = (Inr (new_builder (path_of ''/devkit.json'') []), w')"
    using cleanup_world_builder by blast
  show ?thesis
    using builder_tags_recognised [OF w', of "''tool-env''"] by (simp add: new_builder_def ALLOWED_IMAGE_NAMES_def)
qed

text \<open>
  C23. The listing of the cleanup looks where the builder puts its images: the prefix that
  \<^verbatim>\<open>get_image_prefix\<close> reads from a configuration is, up to the slash, what the tags of a builder with
  that configuration have before the image's name.
\<close>

theorem image_prefix_of_tags:
  assumes "init_builder cfg paths w = (Inr b, w1)"
  shows "\<exists>p. get_image_prefix cfg w = (Inr p, w) \<and>
    get_image_tag b n sha = p @ ''/'' @ n @ '':'' @ arch b @ ''-'' @ sha"
proof -
  obtain b0 w0 where l: "load_config (new_builder cfg paths) w = (Inr b0, w0)" "repo b = repo b0"
    "namespace b = namespace b0" "arch b = arch b0" using init_builder_registry [OF assms] .
  show ?thesis
  proof (cases "exists_at (w_fs w) (comps w cfg)")
    case True
    then obtain bytes config where "read_bytes cfg w = (Inr bytes, w)"
      "bindE (decode_text bytes) json_loads = Inr config" "parse_registry_config config = Inr (repo b0, namespace b0)"
      using load_config_registry(2) [OF l(1)] by blast
    then show ?thesis
      using True
      by (auto simp: get_image_prefix_def bindM_run path_exists_def catchM_def json_load_def read_text_def
          bindE_Inr get_image_tag_def Let_def l)
  next
    case False
    then show ?thesis
      using load_config_registry(3) [OF l(1)]
      by (simp add: get_image_prefix_def bindM_run path_exists_def get_image_tag_def Let_def l)
  qed
qed

theorem image_prefix_of_tags_witness:
  "\<exists>p. get_image_prefix (path_of ''/devkit.json'') cleanup_world = (Inr p, cleanup_world) \<and>
     get_image_tag (new_builder (path_of ''/devkit.json'') []) ''a'' ''0'' = p @ ''/'' @ ''a:amd64-0''"
proof -
  obtain w' where w': "init_builder (path_of ''/devkit.json'') [] cleanup_world = (Inr (new_builder (path_of ''/devkit.json'') []), w')"
    using cleanup_world_builder by blast
  show ?thesis using image_prefix_of_tags [OF w', of "''a''" "''0''"] by (simp add: new_builder_def)
qed

end
