(* ===== verification/CoverageReport.thy ===== *)
theory CoverageReport
  imports PyArgparse PyFiles FindProjectRoot
begin

text \<open>
  \<^verbatim>\<open>src/.devkit/scripts/coverage_report.py\<close>: reads the LCOV file of a Bazel coverage run, prints a table
  and fails when a file is below its threshold.  Percentages are binary64 numbers (theory
  \<^verbatim>\<open>PyFloat\<close>), counts are unbounded integers.

  The copy under \<^verbatim>\<open>src/container-tools\<close> differs in one place: it looks for the report only in the
  project root (\<open>run_bazel_coverage_at_root\<close>).
\<close>

section \<open>Helpers of the language\<close>

definition item :: "'a list \<Rightarrow> nat \<Rightarrow> exn + 'a" where
  "item xs i = (if i < length xs then Inr (xs ! i) else Inl IndexError)"

text \<open>\<^verbatim>\<open>s[k:]\<close> on the characters of a string.\<close>

definition slice_from :: "int \<Rightarrow> 'a list \<Rightarrow> 'a list" where
  "slice_from k xs = (if k < 0 then drop (length xs - nat (- k)) xs else drop (nat k) xs)"

text \<open>The lines of a text file, without their line feeds.\<close>

definition text_lines :: "string \<Rightarrow> string list" where
  "text_lines s = (let ls = split_on nl s in if last ls = [] then butlast ls else ls)"

fun foldE :: "('s \<Rightarrow> 'a \<Rightarrow> exn + 's) \<Rightarrow> 's \<Rightarrow> 'a list \<Rightarrow> exn + 's" where
  "foldE f s [] = Inr s"
| "foldE f s (x # xs) = bindE (f s x) (\<lambda>s'. foldE f s' xs)"

section \<open>FileCoverage\<close>

record file_coverage =
  file_path :: string
  lines_found :: int
  lines_hit :: int
  branches_found :: int
  branches_hit :: int
  uncovered_lines :: "int list"
  uncovered_branches :: "(int \<times> int \<times> int) list"

definition new_file_coverage :: "string \<Rightarrow> file_coverage" where
  "new_file_coverage p =
     \<lparr>file_path = p, lines_found = 0, lines_hit = 0, branches_found = 0, branches_hit = 0,
      uncovered_lines = [], uncovered_branches = []\<rparr>"

definition line_coverage_percent :: "file_coverage \<Rightarrow> exn + pyfloat" where
  "line_coverage_percent fc =
     (if lines_found fc = 0 then Inr (Fin 1) else int_truediv (lines_hit fc) (lines_found fc))"

definition branch_coverage_percent :: "file_coverage \<Rightarrow> exn + pyfloat" where
  "branch_coverage_percent fc =
     (if branches_found fc = 0 then Inr (Fin 1) else int_truediv (branches_hit fc) (branches_found fc))"

definition fit_to_column :: "string \<Rightarrow> int \<Rightarrow> string" where
  "fit_to_column filepath max_width =
     (if max_width < int (str_len filepath)
      then ''...'' @ concat (slice_from (- (max_width - 3)) (chars filepath))
      else filepath @ replicate (nat (max_width - int (str_len filepath))) CHR '' '')"

definition generate_summary_line :: "file_coverage \<Rightarrow> pyfloat \<Rightarrow> pyfloat \<Rightarrow> exn + string" where
  "generate_summary_line fc target_lines target_branch =
     bindE (line_coverage_percent fc) (\<lambda>lines_cov.
     bindE (branch_coverage_percent fc) (\<lambda>branch_cov.
       Inr (fit_to_column (file_path fc) 50 @ '' | '' @
            percent lines_cov @ '' / '' @ percent target_lines @ '' | '' @
            percent branch_cov @ '' / '' @ percent target_branch)))"

definition missing_branch :: "int \<times> int \<times> int \<Rightarrow> string" where
  "missing_branch b =
     (case b of (line, block, branch) \<Rightarrow>
        ''Line '' @ str_int line @ '': (block: '' @ str_int block @ '', branch: '' @ str_int branch @ '')'')"

definition get_missing_branches_str :: "file_coverage \<Rightarrow> string" where
  "get_missing_branches_str fc =
     (if uncovered_branches fc = [] then [] else join [nl] (map missing_branch (uncovered_branches fc)))"

definition range_str :: "int \<Rightarrow> int \<Rightarrow> string" where
  "range_str start_of_range end_of_range =
     (if start_of_range = end_of_range then str_int start_of_range
      else str_int start_of_range @ ''-'' @ str_int end_of_range)"

text \<open>The loop over the sorted numbers, with the number before the current one.\<close>

fun group_ranges :: "int \<Rightarrow> int \<Rightarrow> int list \<Rightarrow> string list" where
  "group_ranges start_of_range prev [] = [range_str start_of_range prev]"
| "group_ranges start_of_range prev (n # ns) =
     (if n \<noteq> prev + 1 then range_str start_of_range prev # group_ranges n n ns
      else group_ranges start_of_range n ns)"

definition group_consecutive_numbers :: "int list \<Rightarrow> string" where
  "group_consecutive_numbers numbers =
     (case sort numbers of
        [] \<Rightarrow> []
      | n # ns \<Rightarrow> join '', '' (group_ranges n n ns))"

definition generate_missing_coverage_report :: "file_coverage \<Rightarrow> string" where
  "generate_missing_coverage_report fc =
     (if uncovered_lines fc = [] \<and> uncovered_branches fc = [] then []
      else
        let uncovered_lines_str = group_consecutive_numbers (uncovered_lines fc);
            uncovered_branches_str = get_missing_branches_str fc
        in [nl] @ ''File: '' @ file_path fc @ [nl] @
           (if uncovered_lines_str \<noteq> [] then ''Lines to test: '' @ uncovered_lines_str @ [nl] else []) @
           (if uncovered_branches_str \<noteq> []
            then ''Branches to test:'' @ [nl] @ uncovered_branches_str else []))"

section \<open>The report\<close>

type_synonym thresholds = "pyfloat dict"

definition target_of :: "thresholds \<Rightarrow> file_coverage \<Rightarrow> pyfloat \<Rightarrow> pyfloat" where
  "target_of ts fc default_target =
     (case map_of ts (file_path fc) of Some t \<Rightarrow> t | None \<Rightarrow> default_target)"

text \<open>The loop over the files: whether all are valid so far, and the two averages.\<close>

definition report_file ::
  "nat \<Rightarrow> pyfloat \<Rightarrow> pyfloat \<Rightarrow> thresholds \<Rightarrow> thresholds \<Rightarrow> bool \<times> pyfloat \<times> pyfloat \<Rightarrow> file_coverage \<Rightarrow>
   (bool \<times> pyfloat \<times> pyfloat) io" where
  "report_file n_files lines_threshold branch_threshold file_lines_thresholds file_branch_thresholds st fc =
     (case st of (is_coverage_valid, overall_lines, overall_branch) \<Rightarrow>
        bindM (liftM (line_coverage_percent fc)) (\<lambda>lines_cov.
        bindM (liftM (branch_coverage_percent fc)) (\<lambda>branch_cov.
        let target_lines = target_of file_lines_thresholds fc lines_threshold;
            target_branch = target_of file_branch_thresholds fc branch_threshold
        in bindM (liftM (generate_summary_line fc target_lines target_branch)) (\<lambda>summary.
           bindM (print_out summary) (\<lambda>_.
             retM (if flt lines_cov target_lines \<or> flt branch_cov target_branch then False else is_coverage_valid,
                   fadd overall_lines (fdiv_pos lines_cov n_files),
                   fadd overall_branch (fdiv_pos branch_cov n_files)))))))"

definition report_missing :: "bool \<Rightarrow> file_coverage \<Rightarrow> bool io" where
  "report_missing any_missing_coverage fc =
     (let report = generate_missing_coverage_report fc
      in if report \<noteq> [] then bindM (print_out report) (\<lambda>_. retM True) else retM any_missing_coverage)"

definition print_and_validate_report ::
  "(string \<times> file_coverage) list \<Rightarrow> pyfloat \<Rightarrow> pyfloat \<Rightarrow> thresholds option \<Rightarrow> thresholds option \<Rightarrow> bool io" where
  "print_and_validate_report coverage_data lines_threshold branch_threshold file_lines_thresholds
       file_branch_thresholds =
     (let fl_thresholds = (case file_lines_thresholds of None \<Rightarrow> [] | Some d \<Rightarrow> d);
          fb_thresholds = (case file_branch_thresholds of None \<Rightarrow> [] | Some d \<Rightarrow> d);
          n_files = length coverage_data
      in bindM (print_out (ljust 50 ''file'' @ '' | '' @ ljust 17 ''Lines %'' @ '' | Branches %'')) (\<lambda>_.
         bindM (print_out (replicate 90 CHR ''-'')) (\<lambda>_.
         bindM (foldM (report_file n_files lines_threshold branch_threshold fl_thresholds fb_thresholds)
                  (True, Fin 0, Fin 0) (map snd coverage_data)) (\<lambda>(is_coverage_valid, overall_lines, overall_branch).
         bindM (print_out (replicate 90 CHR ''-'')) (\<lambda>_.
         bindM (print_out (ljust 50 ''Total'' @ '' | '' @ ljust 17 (percent overall_lines) @ '' | '' @
                  percent overall_branch)) (\<lambda>_.
         bindM (print_out ([nl] @ ''--- Missing Coverage ---'')) (\<lambda>_.
         bindM (foldM report_missing False (map snd coverage_data)) (\<lambda>any_missing_coverage.
         bindM (whenM (\<not> any_missing_coverage) (print_out ''All covered!'')) (\<lambda>_.
           retM is_coverage_valid)))))))))"

section \<open>The LCOV reader\<close>

definition parse_lcov_data_line :: "string \<Rightarrow> file_coverage \<Rightarrow> exn + file_coverage" where
  "parse_lcov_data_line line fc =
     (if startswith line ''LF:'' then
        bindE (py_int (replace ''LF:'' [] line)) (\<lambda>n. Inr (fc\<lparr>lines_found := n\<rparr>))
      else if startswith line ''LH:'' then
        bindE (py_int (replace ''LH:'' [] line)) (\<lambda>n. Inr (fc\<lparr>lines_hit := n\<rparr>))
      else if startswith line ''BRF:'' then
        bindE (py_int (replace ''BRF:'' [] line)) (\<lambda>n. Inr (fc\<lparr>branches_found := n\<rparr>))
      else if startswith line ''BRH:'' then
        bindE (py_int (replace ''BRH:'' [] line)) (\<lambda>n. Inr (fc\<lparr>branches_hit := n\<rparr>))
      else if startswith line ''DA:'' then
        (let parts = split_on CHR '','' line
         in bindE (item parts 0) (\<lambda>p0.
            bindE (py_int (replace ''DA:'' [] p0)) (\<lambda>line_number.
            bindE (item parts 1) (\<lambda>p1.
            bindE (py_int p1) (\<lambda>hit_count.
              Inr (if hit_count = 0 then fc\<lparr>uncovered_lines := uncovered_lines fc @ [line_number]\<rparr> else fc))))))
      else if startswith line ''BRDA'' then
        (let parts = split_on CHR '','' line
         in bindE (item parts 0) (\<lambda>p0.
            bindE (py_int (replace ''BRDA:'' [] p0)) (\<lambda>line_number.
            bindE (item parts 1) (\<lambda>p1.
            bindE (py_int p1) (\<lambda>block_id.
            bindE (item parts 2) (\<lambda>p2.
            bindE (py_int p2) (\<lambda>branch_id.
            bindE (item parts 3) (\<lambda>hit_marker.
              Inr (if hit_marker = ''-''
                   then fc\<lparr>uncovered_branches := uncovered_branches fc @ [(line_number, block_id, branch_id)]\<rparr>
                   else fc)))))))))
      else Inr fc)"

text \<open>One line of the file: the records by path, and the path of the current one.\<close>

definition lcov_line ::
  "file_coverage dict \<times> string option \<Rightarrow> string \<Rightarrow> exn + file_coverage dict \<times> string option" where
  "lcov_line st raw =
     (case st of (coverage_data, current) \<Rightarrow>
        let line = strip raw
        in if startswith line ''SF:'' then
             (let p = replace ''SF:'' [] line in Inr (dict_set coverage_data p (new_file_coverage p), Some p))
           else if line = ''end_of_record'' then Inr (coverage_data, None)
           else (case current of
               None \<Rightarrow> Inr st
             | Some p \<Rightarrow>
                 (case map_of coverage_data p of
                    Some fc \<Rightarrow>
                      (if p = [] then Inr st
                       else bindE (parse_lcov_data_line line fc) (\<lambda>fc'.
                              Inr (dict_set coverage_data p fc', current)))
                  | None \<Rightarrow> Inr st)))"

definition parse_lcov :: "string \<Rightarrow> exn + file_coverage dict" where
  "parse_lcov text_in =
     bindE (foldE lcov_line ([], None) (text_lines text_in)) (\<lambda>(coverage_data, _). Inr coverage_data)"

definition generate_lcov_report ::
  "path \<Rightarrow> pyfloat \<Rightarrow> pyfloat \<Rightarrow> thresholds option \<Rightarrow> thresholds option \<Rightarrow> bool io" where
  "generate_lcov_report p lines_threshold branch_threshold file_lines_thresholds file_branch_thresholds =
     catchM
       (bindM (read_text p) (\<lambda>text_in.
        bindM (liftM (parse_lcov text_in)) (\<lambda>coverage_data.
          print_and_validate_report coverage_data lines_threshold branch_threshold
            (Some (case file_lines_thresholds of None \<Rightarrow> [] | Some d \<Rightarrow> d))
            (Some (case file_branch_thresholds of None \<Rightarrow> [] | Some d \<Rightarrow> d)))))
       is_file_not_found
       (\<lambda>_. bindM (print_out (''File not found: '' @ str_path p)) (\<lambda>_. retM False))"

section \<open>Running Bazel\<close>

definition coverage_cmd :: "path \<Rightarrow> string \<Rightarrow> string list" where
  "coverage_cmd project_root target =
     [str_path (child (child project_root ''devkit'') ''build''), ''bazel'', ''coverage'', ''--combined_report=lcov'', target]"

definition report_below :: "path \<Rightarrow> path" where
  "report_below p = child (child (child p ''bazel-out'') ''_coverage'') ''_coverage_report.dat''"

definition coverage_failed :: "exn \<Rightarrow> 'a io" where
  "coverage_failed e =
     (case e of
        CalledProcessError _ rc out err \<Rightarrow>
          bindM (print_err (''Error: Bazel coverage failed with exit code '' @ str_int rc @ ''.'')) (\<lambda>_.
          bindM (whenM (out \<noteq> []) (print_err (''STDOUT:'' @ [nl] @ out))) (\<lambda>_.
          bindM (whenM (err \<noteq> []) (print_err (''STDERR:'' @ [nl] @ err))) (\<lambda>_.
            sys_exit 1)))
      | _ \<Rightarrow> raiseM e)"

definition run_bazel_coverage :: "string \<Rightarrow> path io" where
  "run_bazel_coverage target =
     bindM find_project_root (\<lambda>project_root.
     catchM
       (bindM (run_checked False (coverage_cmd project_root target)) (\<lambda>_.
        bindM (getM cwd_path) (\<lambda>cwd.
        bindM (path_exists (report_below cwd)) (\<lambda>ex.
          if ex then retM (report_below cwd) else retM (report_below project_root)))))
       is_called_process_error
       coverage_failed)"

text \<open>The copy under \<^verbatim>\<open>src/container-tools\<close>.\<close>

definition run_bazel_coverage_at_root :: "string \<Rightarrow> path io" where
  "run_bazel_coverage_at_root target =
     bindM find_project_root (\<lambda>project_root.
     catchM
       (bindM (run_checked False (coverage_cmd project_root target)) (\<lambda>_. retM (report_below project_root)))
       is_called_process_error
       coverage_failed)"

section \<open>Thresholds\<close>

text \<open>\<^verbatim>\<open>float(v)\<close> for a value from a JSON file.\<close>

fun json_float :: "json \<Rightarrow> exn + pyfloat" where
  "json_float (JFloat x) = Inr x"
| "json_float (JInt i) =
     (case round_float (of_int i) of
        Fin v \<Rightarrow> Inr (Fin v) | _ \<Rightarrow> Inl (OverflowError ''int too large to convert to float''))"
| "json_float (JBool b) = Inr (Fin (if b then 1 else 0))"
| "json_float (JStr s) =
     (case parse_float s of
        Some x \<Rightarrow> Inr x
      | None \<Rightarrow> Inl (ValueError (''could not convert string to float: '' @ repr_str s)))"
| "json_float v =
     Inl (TypeError (''float() argument must be a string or a real number, not '' @ quoted (type_name v)))"

definition in_percent_range :: "pyfloat \<Rightarrow> bool" where
  "in_percent_range x = (fle (Fin 0) x \<and> fle x (Fin 100))"

definition threshold_value :: "string \<Rightarrow> string \<Rightarrow> json \<Rightarrow> exn + pyfloat" where
  "threshold_value label filepath v =
     bindE (json_float v) (\<lambda>val.
       if \<not> in_percent_range val then Inl (ValueError (label @ '' for '' @ filepath @ '' must be in [0.0, 100.0]''))
       else Inr (fdiv_pos val 100))"

definition set_threshold ::
  "string \<Rightarrow> string \<Rightarrow> string \<Rightarrow> json dict \<Rightarrow> thresholds \<Rightarrow> exn + thresholds" where
  "set_threshold key label filepath values ts =
     (case map_of values key of
        None \<Rightarrow> Inr ts
      | Some v \<Rightarrow> bindE (threshold_value label filepath v) (\<lambda>t. Inr (dict_set ts filepath t)))"

definition threshold_entry ::
  "thresholds \<times> thresholds \<Rightarrow> string \<times> json \<Rightarrow> exn + thresholds \<times> thresholds" where
  "threshold_entry st e =
     (case st of (file_lines, file_branch) \<Rightarrow> case e of (filepath, values) \<Rightarrow>
        (case values of
           JObj kvs \<Rightarrow>
             bindE (set_threshold ''lines'' ''Lines'' filepath kvs file_lines) (\<lambda>file_lines'.
             bindE (set_threshold ''branch'' ''Branch'' filepath kvs file_branch) (\<lambda>file_branch'.
               Inr (file_lines', file_branch')))
         | _ \<Rightarrow> Inl (ValueError (''Values for '' @ filepath @ '' must be a JSON object.''))))"

definition read_thresholds :: "json \<Rightarrow> exn + thresholds \<times> thresholds" where
  "read_thresholds data =
     (case data of
        JObj entries \<Rightarrow> foldE threshold_entry ([], []) entries
      | _ \<Rightarrow> Inl (ValueError ''Root element must be a JSON object.''))"

definition parse_thresholds_file :: "path \<Rightarrow> (thresholds \<times> thresholds) io" where
  "parse_thresholds_file p =
     catchM
       (bindM (json_load p) (\<lambda>data. liftM (read_thresholds data)))
       (\<lambda>e. is_file_not_found e \<or> is_value_error e)
       (\<lambda>e. bindM (print_out (''Error reading thresholds file: '' @ exn_str e)) (\<lambda>_. sys_exit 1))"

section \<open>main\<close>

definition coverage_parser :: "opt list" where
  "coverage_parser =
     [help_opt,
      store_opt ''--target'' ''target'' ToStr (AStr ''//...''),
      store_opt ''--lines'' ''lines'' ToFloat (AFloat (Fin 100)),
      store_opt ''--branch'' ''branch'' ToFloat (AFloat (Fin 100)),
      store_opt ''--thresholds-file'' ''thresholds_file'' ToPath ANone,
      store_opt ''--devkit-log-file'' ''devkit_log_file'' ToPath ANone]"

definition check_threshold :: "string \<times> pyfloat \<Rightarrow> unit io" where
  "check_threshold nv =
     (case nv of (name, value) \<Rightarrow>
        whenM (\<not> in_percent_range value)
          (bindM (print_out (''Error: '' @ name @ '' threshold value must be in range [0.0, 100.0]'')) (\<lambda>_.
             sys_exit 1)))"

definition coverage_check :: "(string \<Rightarrow> path io) \<Rightarrow> namespace \<Rightarrow> bool io" where
  "coverage_check run args =
     bindM (forM [(''Branch'', get_float args ''branch''), (''Lines'', get_float args ''lines'')] check_threshold) (\<lambda>_.
     bindM (case get_path args ''thresholds_file'' of
              None \<Rightarrow> retM ([], []) | Some p \<Rightarrow> parse_thresholds_file p) (\<lambda>(file_lines, file_branch).
     bindM (log_info ''Running Bazel Coverage'') (\<lambda>_.
     bindM (run (get_str args ''target'')) (\<lambda>report_path.
     bindM (log_info ''Generating coverage report'') (\<lambda>_.
       generate_lcov_report report_path (fdiv_pos (get_float args ''lines'') 100)
         (fdiv_pos (get_float args ''branch'') 100) (Some file_lines) (Some file_branch))))))"

definition coverage_main_with :: "(string \<Rightarrow> path io) \<Rightarrow> string list \<Rightarrow> unit io" where
  "coverage_main_with run argv =
     bindM (parse_args coverage_parser None argv) (\<lambda>args.
     bindM (basic_config (get_path args ''devkit_log_file'')) (\<lambda>_.
     bindM (coverage_check run args) (\<lambda>coverage_passed.
       if coverage_passed then print_out ''Coverage check passed.''
       else bindM (print_out ''Coverage check failed.'') (\<lambda>_. sys_exit 1))))"


definition coverage_main_at_root :: "string list \<Rightarrow> unit io" where
  "coverage_main_at_root argv = coverage_main_with run_bazel_coverage_at_root argv"

section \<open>Numbers in the report\<close>

text \<open>Reading a list of ranges back.\<close>

definition read_number :: "string \<Rightarrow> int" where
  "read_number s = (if s \<noteq> [] \<and> hd s = CHR ''-'' then - int (digits_val (tl s)) else int (digits_val s))"

definition read_range :: "string \<Rightarrow> int \<times> int" where
  "read_range s =
     (let a = hd s # takeWhile (\<lambda>c. c \<noteq> CHR ''-'') (tl s); rest = dropWhile (\<lambda>c. c \<noteq> CHR ''-'') (tl s)
      in (read_number a, if rest = [] then read_number a else read_number (tl rest)))"

definition read_ranges :: "string \<Rightarrow> (int \<times> int) list" where
  "read_ranges s = (if s = [] then [] else map (\<lambda>t. read_range (lstrip t)) (split_on CHR '','' s))"

lemma str_int_tl: "c \<in> set (tl (str_int i)) \<Longrightarrow> is_digit c"
proof (cases "i < 0")
  case True
  then show "c \<in> set (tl (str_int i)) \<Longrightarrow> is_digit c" using nat_digits_is_digit by (simp add: str_int_def)
next
  case False
  then show "c \<in> set (tl (str_int i)) \<Longrightarrow> is_digit c"
    using nat_digits_is_digit list.set_sel(2) [of "nat_digits (nat i)" c] by (simp add: str_int_def)
qed

lemma read_number_str_int [simp]: "read_number (str_int i) = i"
proof (cases "i < 0")
  case False
  have "is_digit (hd (nat_digits (nat i)))" using nat_digits_is_digit hd_in_set nat_digits_ne by blast
  then show ?thesis using False digit_not_sign by (auto simp: read_number_def str_int_def)
qed (simp add: read_number_def str_int_def)

lemma minus_not_in_tl: "CHR ''-'' \<notin> set (tl (str_int i))"
  using str_int_tl digit_not_sign by blast

lemma read_range_str: "read_range (range_str a b) = (a, b)"
proof -
  have t: "takeWhile (\<lambda>c. c \<noteq> CHR ''-'') (tl (str_int a)) = tl (str_int a)"
    "dropWhile (\<lambda>c. c \<noteq> CHR ''-'') (tl (str_int a)) = []"
    using minus_not_in_tl [of a] by (auto simp: takeWhile_eq_all_conv dropWhile_eq_Nil_conv)
  have u: "takeWhile (\<lambda>c. c \<noteq> CHR ''-'') (tl (str_int a) @ ''-'' @ str_int b) = tl (str_int a)"
    "dropWhile (\<lambda>c. c \<noteq> CHR ''-'') (tl (str_int a) @ ''-'' @ str_int b) = ''-'' @ str_int b"
    using minus_not_in_tl [of a] by (auto simp: takeWhile_append dropWhile_append)
  have h: "hd (str_int a @ ''-'' @ str_int b) = hd (str_int a)"
    "tl (str_int a @ ''-'' @ str_int b) = tl (str_int a) @ ''-'' @ str_int b" by simp_all
  have "read_range (str_int a) = (a, a)" unfolding read_range_def Let_def t by simp
  moreover have "read_range (str_int a @ ''-'' @ str_int b) = (a, b)"
    unfolding read_range_def Let_def h u by simp
  ultimately show ?thesis by (cases "a = b") (simp_all add: range_str_def)
qed

fun spans :: "int \<Rightarrow> int \<Rightarrow> int list \<Rightarrow> (int \<times> int) list" where
  "spans start prev [] = [(start, prev)]"
| "spans start prev (n # ns) =
     (if n \<noteq> prev + 1 then (start, prev) # spans n n ns else spans start n ns)"

lemma group_ranges_spans: "group_ranges start prev ns = map (\<lambda>(a, b). range_str a b) (spans start prev ns)"
  by (induction ns arbitrary: start prev) auto

lemma spans_ne: "\<exists>b rest. spans start prev ns = (start, b) # rest"
  by (induction ns arbitrary: start prev) auto

lemma spans_expand:
  "start \<le> prev \<Longrightarrow> sorted (prev # ns) \<Longrightarrow>
   concat (map (\<lambda>(a, b). [a..b]) (spans start prev ns)) = [start..prev] @ ns"
proof (induction ns arbitrary: start prev)
  case (Cons n ns)
  show ?case
  proof (cases "n = prev + 1")
    case True
    then have "[start..n] = [start..prev] @ [n]" using Cons.prems(1) upto_rec2 [of start n] by simp
    then show ?thesis using Cons.IH [of start n] Cons.prems True by simp
  next
    case False
    then show ?thesis using Cons.IH [of n n] Cons.prems by simp
  qed
qed simp

lemma spans_order:
  "start \<le> prev \<Longrightarrow> sorted (prev # ns) \<Longrightarrow>
   list_all (\<lambda>(a, b). a \<le> b) (spans start prev ns) \<and>
   successively (\<lambda>(_, b) (c, _). c \<noteq> b + 1) (spans start prev ns)"
proof (induction ns arbitrary: start prev)
  case (Cons n ns)
  obtain b rest where "spans n n ns = (n, b) # rest" using spans_ne by blast
  then show ?case using Cons.IH [of n n] Cons.IH [of start n] Cons.prems by auto
qed simp

lemma split_on_join_comma:
  "list_all (\<lambda>x. CHR '','' \<notin> set x) (x # xs) \<Longrightarrow>
   split_on CHR '','' (join '', '' (x # xs)) = x # map ((#) CHR '' '') xs"
proof (induction xs arbitrary: x)
  case (Cons y xs)
  have "split_on CHR '','' (CHR '' '' # join '', '' (y # xs)) = (CHR '' '' # y) # map ((#) CHR '' '') xs"
    using Cons.IH [of y] Cons.prems by simp
  then show ?case using Cons.prems by (simp add: split_on_append)
qed (simp add: split_on_single)

lemma range_str_shape: "CHR '','' \<notin> set (range_str a b)" "range_str a b \<noteq> []" "\<not> is_space (hd (range_str a b))"
  using str_int_chars [of "CHR '',''" a] str_int_chars [of "CHR '',''" b] str_int_hd
  by (auto simp: range_str_def is_digit_def)

lemma read_ranges_join:
  assumes "rs \<noteq> []"
  shows "read_ranges (join '', '' (map (\<lambda>(a, b). range_str a b) rs)) = rs"
proof -
  let ?f = "\<lambda>(a, b). range_str a b"
  obtain r rs' where rs: "rs = r # rs'" using assms by (cases rs) auto
  have "join '', '' (map ?f rs) \<noteq> []"
    using range_str_shape(2) by (cases rs') (auto simp: rs split: prod.splits)
  moreover have "split_on CHR '','' (join '', '' (map ?f rs)) = ?f r # map ((#) CHR '' '') (map ?f rs')"
    unfolding rs list.map using range_str_shape(1) by (intro split_on_join_comma) (auto simp: list_all_iff)
  moreover have "read_range (lstrip (?f x)) = x" "read_range (lstrip (CHR '' '' # ?f x)) = x" for x
  proof -
    have l: "lstrip (range_str a b) = range_str a b" for a b using range_str_shape(2,3) by (rule lstrip_no_space)
    then have "lstrip (CHR '' '' # range_str a b) = range_str a b" for a b by (simp add: lstrip_def is_space_def)
    then show "read_range (lstrip (?f x)) = x" "read_range (lstrip (CHR '' '' # ?f x)) = x"
      by (cases x; simp only: prod.case l read_range_str)+
  qed
  ultimately show ?thesis by (simp add: read_ranges_def rs o_def)
qed

text \<open>
  C24. \<^verbatim>\<open>group_consecutive_numbers\<close> loses nothing: reading the ranges it prints and expanding them gives
  the numbers back, sorted.  Every range runs upwards, and none could be joined with the next.
\<close>

theorem group_consecutive_numbers_roundtrip:
  "concat (map (\<lambda>(a, b). [a..b]) (read_ranges (group_consecutive_numbers numbers))) = sort numbers \<and>
   list_all (\<lambda>(a, b). a \<le> b) (read_ranges (group_consecutive_numbers numbers)) \<and>
   successively (\<lambda>(_, b) (c, _). c \<noteq> b + 1) (read_ranges (group_consecutive_numbers numbers))"
proof (cases "sort numbers")
  case Nil
  then show ?thesis by (simp add: group_consecutive_numbers_def read_ranges_def)
next
  case (Cons n ns)
  have "sorted (n # ns)" using sorted_sort [of numbers] Cons by simp
  moreover have "read_ranges (group_consecutive_numbers numbers) = spans n n ns"
    using read_ranges_join [of "spans n n ns"] spans_ne [of n n ns]
    by (auto simp: group_consecutive_numbers_def Cons group_ranges_spans)
  ultimately show ?thesis using spans_expand [of n n ns] spans_order [of n n ns] Cons by simp
qed

text \<open>The characters of the end of a string.\<close>

lemma chars_drop: "chars (concat (drop k (chars s))) = drop k (chars s)"
  and chars_drop_start: "0 < k \<Longrightarrow> concat (drop k (chars s)) = [] \<or> \<not> is_cont (hd (concat (drop k (chars s))))"
proof -
  have "chars (concat (drop k (chars s))) = drop k (chars s) \<and>
    (0 < k \<longrightarrow> concat (drop k (chars s)) = [] \<or> \<not> is_cont (hd (concat (drop k (chars s)))))"
  proof (induction s arbitrary: k rule: chars.induct)
    case (2 c s)
    show ?case
    proof (cases k)
      case 0
      then show ?thesis by (simp del: chars.simps) 
    next
      case (Suc j)
      have "dropWhile is_cont s = [] \<or> \<not> is_cont (hd (dropWhile is_cont s))" using hd_dropWhile by blast
      then show ?thesis using 2 [of j] Suc by (cases j) simp_all
    qed
  qed simp
  then show "chars (concat (drop k (chars s))) = drop k (chars s)"
    and "0 < k \<Longrightarrow> concat (drop k (chars s)) = [] \<or> \<not> is_cont (hd (concat (drop k (chars s))))" by simp_all
qed

lemma str_len_append: "t = [] \<or> \<not> is_cont (hd t) \<Longrightarrow> str_len (s @ t) = str_len s + str_len t"
  by (simp add: str_len_def chars_append)

lemma chars_spaces: "chars (replicate n CHR '' '') = replicate n '' ''"
proof (induction n)
  case (Suc n)
  have "takeWhile is_cont (replicate n CHR '' '') = []" "dropWhile is_cont (replicate n CHR '' '') = replicate n CHR '' ''"
    by (cases n; simp add: is_cont_def)+
  then show ?case using Suc by simp
qed simp

text \<open>
  C25. For a width above three, \<^verbatim>\<open>fit_to_column\<close> gives a string of exactly that many characters: the
  path followed by blanks where it fits, and otherwise three dots and the end of the path.
\<close>

theorem fit_to_column_width:
  assumes "3 < max_width"
  shows "int (str_len (fit_to_column p max_width)) = max_width \<and>
    (if int (str_len p) \<le> max_width then startswith (fit_to_column p max_width) p
     else \<exists>rest. fit_to_column p max_width = ''...'' @ rest \<and> endswith p rest)"
proof (cases "max_width < int (str_len p)")
  case True
  let ?k = "str_len p - nat (max_width - 3)"
  let ?suffix = "concat (drop ?k (chars p))"
  have f: "fit_to_column p max_width = ''...'' @ ?suffix"
    using True assms by (simp add: fit_to_column_def slice_from_def str_len_def)
  have k: "0 < ?k" "?k \<le> str_len p" using True assms by linarith+
  have "str_len ?suffix = str_len p - ?k" unfolding str_len_def by (simp add: chars_drop)
  moreover have "str_len (''...'' @ ?suffix) = str_len ''...'' + str_len ?suffix"
    using chars_drop_start [OF k(1)] by (rule str_len_append)
  moreover have "str_len ''...'' = 3" by code_simp
  ultimately have len: "int (str_len (fit_to_column p max_width)) = max_width" using f k True assms by simp
  have "p = concat (take ?k (chars p)) @ ?suffix" by (metis append_take_drop_id concat_append concat_chars)
  then have "endswith p ?suffix" unfolding endswith_suffix by blast
  then show ?thesis using len f True by auto
next
  case False
  have "replicate n CHR '' '' = [] \<or> \<not> is_cont (hd (replicate n CHR '' ''))" for n
    by (cases n) (simp_all add: is_cont_def)
  then have "str_len (p @ replicate n CHR '' '') = str_len p + n" for n
    by (simp only: str_len_append) (simp add: str_len_def chars_spaces)
  then have "str_len (fit_to_column p max_width) = str_len p + nat (max_width - int (str_len p))"
    using False by (simp add: fit_to_column_def)
  then show ?thesis using False by (simp add: fit_to_column_def)
qed

theorem fit_to_column_width_witness:
  "int (str_len (fit_to_column ''src/some/directory/with/a/long/name/file.cc'' 20)) = 20"
  using fit_to_column_width [of 20] by simp

section \<open>The verdict\<close>

definition coverage_wf :: "file_coverage \<Rightarrow> bool" where
  "coverage_wf fc =
     (0 \<le> lines_hit fc \<and> lines_hit fc \<le> lines_found fc \<and>
      0 \<le> branches_hit fc \<and> branches_hit fc \<le> branches_found fc)"

text \<open>The share of lines or branches hit, rounded to a float; 1 where there are none.\<close>

definition share :: "int \<Rightarrow> int \<Rightarrow> rat" where
  "share hit found = (if found = 0 then 1 else fl (of_int hit / of_int found))"

lemma ratio_bounds:
  assumes "0 \<le> h" "h \<le> f" "f \<noteq> 0"
  shows "0 \<le> (of_int h / of_int f :: rat)" "(of_int h / of_int f :: rat) \<le> 1"
  using assms by (simp_all add: divide_le_eq_1)

lemma truediv_share: "0 \<le> h \<Longrightarrow> h \<le> f \<Longrightarrow> f \<noteq> 0 \<Longrightarrow> int_truediv h f = Inr (Fin (share h f))"
  using ratio_bounds [of h f] by (simp add: int_truediv_def share_def round_float_small)

lemma coverage_percent_wf:
  assumes "coverage_wf fc"
  shows "line_coverage_percent fc = Inr (Fin (share (lines_hit fc) (lines_found fc)))"
    "branch_coverage_percent fc = Inr (Fin (share (branches_hit fc) (branches_found fc)))"
  using assms truediv_share
  by (auto simp: coverage_wf_def line_coverage_percent_def branch_coverage_percent_def, simp_all add: share_def)

definition file_passes :: "pyfloat \<Rightarrow> pyfloat \<Rightarrow> thresholds \<Rightarrow> thresholds \<Rightarrow> file_coverage \<Rightarrow> bool" where
  "file_passes lt bt ls bs fc =
     (case (line_coverage_percent fc, branch_coverage_percent fc) of
        (Inr x, Inr y) \<Rightarrow> \<not> flt x (target_of ls fc lt) \<and> \<not> flt y (target_of bs fc bt)
      | _ \<Rightarrow> False)"

lemma report_file_valid:
  "report_file n lt bt ls bs (v, l, b) fc w = (Inr (v', l', b'), w') \<Longrightarrow> v' = (v \<and> file_passes lt bt ls bs fc)"
  by (auto simp: report_file_def bindM_Inr file_passes_def Let_def split: if_splits)

lemma report_fold_valid:
  "foldM (report_file n lt bt ls bs) (v, l, b) fcs w = (Inr (v', l', b'), w') \<Longrightarrow>
   v' = (v \<and> (\<forall>fc\<in>set fcs. file_passes lt bt ls bs fc))"
proof (induction fcs arbitrary: v l b w)
  case (Cons fc fcs)
  then obtain v1 l1 b1 w1 where s: "report_file n lt bt ls bs (v, l, b) fc w = (Inr (v1, l1, b1), w1)"
    "foldM (report_file n lt bt ls bs) (v1, l1, b1) fcs w1 = (Inr (v', l', b'), w')" by (auto simp: bindM_Inr)
  show ?case using report_file_valid [OF s(1)] Cons.IH [OF s(2)] by simp
qed simp

lemma raises_none: "raises_in {} m \<Longrightarrow> \<exists>x w'. m w = (Inr x, w')"
  unfolding raises_in_def by (metis emptyE old.prod.exhaust sum.exhaust)

lemma report_file_total: "coverage_wf fc \<Longrightarrow> raises_in {} (report_file n lt bt ls bs st fc)"
  unfolding report_file_def Let_def
  by (intro raises_in_intros raises_in_liftM) (simp_all add: coverage_percent_wf generate_summary_line_def)

abbreviation given :: "thresholds option \<Rightarrow> thresholds" where
  "given ts \<equiv> (case ts of None \<Rightarrow> [] | Some d \<Rightarrow> d)"

lemma report_result:
  "print_and_validate_report data lt bt ls bs w = (Inr ok, w') \<Longrightarrow>
   ok = (\<forall>fc\<in>set (map snd data). file_passes lt bt (given ls) (given bs) fc)"
  unfolding print_and_validate_report_def Let_def
  by (auto simp only: bindM_Inr case_prod_beta retM_run prod.inject sum.inject prod.collapse
      dest!: report_fold_valid [of _ _ _ _ _ _ _ _ _ _ "fst r" "fst (snd r)" "snd (snd r)" for r, unfolded prod.collapse])

lemma report_returns:
  assumes "\<forall>fc\<in>set (map snd data). coverage_wf fc"
  shows "\<exists>ok w'. print_and_validate_report data lt bt ls bs w = (Inr ok, w')"
proof (rule raises_none)
  have "raises_in {} (report_missing b fc)" for b fc
    unfolding report_missing_def Let_def by (intro raises_in_intros)
  moreover have "raises_in {} (report_file n lt bt ls bs st fc)" if "fc \<in> set (map snd data)" for n ls bs st fc
    using assms that by (intro report_file_total) blast
  ultimately show "raises_in {} (print_and_validate_report data lt bt ls bs)"
    unfolding print_and_validate_report_def Let_def by (intro raises_in_intros)
qed


definition sample_coverage :: "file_coverage" where
  "sample_coverage = (new_file_coverage ''a.cc'')\<lparr>lines_found := 2, lines_hit := 1, uncovered_lines := [7]\<rparr>"

lemma sample_coverage_wf: "coverage_wf sample_coverage"
  by (simp add: coverage_wf_def sample_coverage_def new_file_coverage_def)


lemma share_full:
  assumes "0 \<le> h" "h \<le> f" "f < 2 ^ 53"
  shows "share h f < 1 \<longleftrightarrow> h \<noteq> f"
proof (cases "h = f")
  case True
  then show ?thesis by (simp add: share_def)
next
  case False
  then have f: "0 < f" "h \<le> f - 1" using assms by linarith+
  have "(of_int h / of_int f :: rat) \<le> of_int (f - 1) / of_int f"
    using f by (intro divide_right_mono) (simp_all only: of_int_le_iff of_int_0_le_iff less_imp_le)
  also have "\<dots> = 1 - 1 / of_int f" using f by (simp add: field_simps)
  also have "\<dots> \<le> 1 - 1 / 2 ^ 53"
  proof -
    have "(of_int f :: rat) \<le> of_int (2 ^ 53)" using assms(3) by (simp only: of_int_le_iff)
    then have "1 / 2 ^ 53 \<le> (1 / of_int f :: rat)" using f(1) by (intro divide_left_mono) simp_all
    then show ?thesis by simp
  qed
  finally have "fl (of_int h / of_int f) < 1" by (rule fl_less_one)
  then show ?thesis using f False by (simp add: share_def)
qed

text \<open>
  C27. The check for full coverage is exact: with the default thresholds of 100 percent and fewer
  than 2 to the 53 lines and branches per file, the verdict is true if and only if every line and
  every branch of every file has been hit.  No rounding error lets an incomplete file pass.
\<close>

theorem full_coverage_exact:
  assumes "\<forall>fc\<in>set (map snd data). coverage_wf fc \<and> lines_found fc < 2 ^ 53 \<and> branches_found fc < 2 ^ 53"
  shows "\<exists>w'. print_and_validate_report data (fdiv_pos (Fin 100) 100) (fdiv_pos (Fin 100) 100) None None w =
    (Inr (\<forall>fc\<in>set (map snd data). lines_hit fc = lines_found fc \<and> branches_hit fc = branches_found fc), w')"
proof -
  have one: "fdiv_pos (Fin 100) 100 = Fin 1" by (simp add: round_float_small)
  obtain ok w' where r: "print_and_validate_report data (Fin 1) (Fin 1) None None w = (Inr ok, w')"
    using report_returns [of data] assms by blast
  have "file_passes (Fin 1) (Fin 1) [] [] fc \<longleftrightarrow> lines_hit fc = lines_found fc \<and> branches_hit fc = branches_found fc"
    if "fc \<in> set (map snd data)" for fc
  proof -
    have wf: "coverage_wf fc" "lines_found fc < 2 ^ 53" "branches_found fc < 2 ^ 53" using assms that by blast+
    then show ?thesis
      using share_full [of "lines_hit fc" "lines_found fc"] share_full [of "branches_hit fc" "branches_found fc"]
      by (simp add: file_passes_def coverage_percent_wf target_of_def) (simp add: coverage_wf_def)
  qed
  then show ?thesis using r report_result [OF r] unfolding one by auto
qed

theorem full_coverage_exact_witness:
  "\<exists>w'. print_and_validate_report [(''a.cc'', sample_coverage)] (fdiv_pos (Fin 100) 100) (fdiv_pos (Fin 100) 100) None None
      \<lparr>w_fs = Dir [], w_cwd = [], w_env = [], w_trace = [], w_exec = (\<lambda>_ fs _. (NoProgram, fs)), w_order = (\<lambda>xs. xs)\<rparr> =
    (Inr False, w')"
  using full_coverage_exact [of "[(''a.cc'', sample_coverage)]"] sample_coverage_wf
  by (simp add: sample_coverage_def new_file_coverage_def)

section \<open>Thresholds\<close>















section \<open>The LCOV format\<close>

text \<open>A record of the file as Bazel writes it: a hit count per line, and per branch the number of
  times it was taken, or none where its block was never reached.\<close>

record lcov_record =
  r_path :: string
  r_branches :: "(int \<times> int \<times> int \<times> nat option) list"
  r_branches_found :: int
  r_branches_hit :: int
  r_lines :: "(int \<times> int) list"
  r_lines_hit :: int
  r_lines_found :: int

definition branch_line :: "int \<times> int \<times> int \<times> nat option \<Rightarrow> string" where
  "branch_line b =
     (case b of (line, block, branch, taken) \<Rightarrow>
        ''BRDA:'' @ str_int line @ '','' @ str_int block @ '','' @ str_int branch @ '','' @
        (case taken of None \<Rightarrow> ''-'' | Some n \<Rightarrow> str_int (int n)))"

definition data_line :: "int \<times> int \<Rightarrow> string" where
  "data_line d = (case d of (line, hits) \<Rightarrow> ''DA:'' @ str_int line @ '','' @ str_int hits)"

definition body_lines :: "lcov_record \<Rightarrow> string list" where
  "body_lines r =
     map branch_line (r_branches r) @ [''BRF:'' @ str_int (r_branches_found r), ''BRH:'' @ str_int (r_branches_hit r)] @
     map data_line (r_lines r) @ [''LH:'' @ str_int (r_lines_hit r), ''LF:'' @ str_int (r_lines_found r)]"

definition lcov_text :: "lcov_record list \<Rightarrow> string" where
  "lcov_text rs =
     concat (map (\<lambda>r. concat (map (\<lambda>l. l @ [nl]) ([''SF:'' @ r_path r] @ body_lines r @ [''end_of_record'']))) rs)"

definition coverage_of :: "lcov_record \<Rightarrow> file_coverage" where
  "coverage_of r =
     \<lparr>file_path = r_path r, lines_found = r_lines_found r, lines_hit = r_lines_hit r,
      branches_found = r_branches_found r, branches_hit = r_branches_hit r,
      uncovered_lines = map fst (filter (\<lambda>(_, hits). hits = 0) (r_lines r)),
      uncovered_branches =
        map (\<lambda>(line, block, branch, _). (line, block, branch))
          (filter (\<lambda>(_, _, _, taken). taken = None) (r_branches r))\<rparr>"

text \<open>The numbers are within the interpreter's limit, and the path survives \<^verbatim>\<open>strip\<close> and \<^verbatim>\<open>replace\<close>.\<close>

definition short :: "int \<Rightarrow> bool" where
  "short i = (length (nat_digits (nat \<bar>i\<bar>)) \<le> int_max_str_digits)"

definition record_ok :: "lcov_record \<Rightarrow> bool" where
  "record_ok r =
     (r_path r \<noteq> [] \<and> nl \<notin> set (r_path r) \<and> \<not> is_space (last (r_path r)) \<and> \<not> contains (r_path r) ''SF:'' \<and>
      list_all short [r_branches_found r, r_branches_hit r, r_lines_hit r, r_lines_found r] \<and>
      list_all (\<lambda>(line, hits). short line \<and> short hits) (r_lines r) \<and>
      list_all (\<lambda>(line, block, branch, _). short line \<and> short block \<and> short branch) (r_branches r))"

lemma py_int_str [simp]: "short i \<Longrightarrow> py_int (str_int i) = Inr i"
  by (simp add: py_int_def parse_int_str_int short_def)

lemma str_int_no: "\<not> is_digit c \<Longrightarrow> c \<noteq> CHR ''-'' \<Longrightarrow> c \<notin> set (str_int i)"
  using str_int_chars by blast

lemma str_int_no_chars [simp]:
  "CHR '','' \<notin> set (str_int i)" "nl \<notin> set (str_int i)" "CHR ''D'' \<notin> set (str_int i)" "CHR ''F'' \<notin> set (str_int i)"
  "CHR ''H'' \<notin> set (str_int i)" "CHR '':'' \<notin> set (str_int i)"
  by (rule str_int_no; simp add: is_digit_def)+

lemma replace_label:
  assumes "label = pre @ [CHR '':'']"
  shows "replace label [] (label @ str_int i) = str_int i"
proof -
  have "\<not> contains (str_int i) label"
  proof
    assume "contains (str_int i) label"
    then obtain u v where "str_int i = u @ label @ v" unfolding contains_infix by blast
    then have "CHR '':'' \<in> set (str_int i)" using assms by simp
    then show False by simp
  qed
  then show ?thesis using replace_prefix [of label "[]" "str_int i"] assms by (simp add: replace_absent)
qed

lemmas replace_labels =
  replace_label [of "''LF:''" "''LF''", simplified] replace_label [of "''LH:''" "''LH''", simplified]
  replace_label [of "''BRF:''" "''BRF''", simplified] replace_label [of "''BRH:''" "''BRH''", simplified]
  replace_label [of "''DA:''" "''DA''", simplified] replace_label [of "''BRDA:''" "''BRDA''", simplified]

lemma parse_count_lines:
  assumes "short i"
  shows "parse_lcov_data_line (''BRF:'' @ str_int i) fc = Inr (fc\<lparr>branches_found := i\<rparr>)"
    "parse_lcov_data_line (''BRH:'' @ str_int i) fc = Inr (fc\<lparr>branches_hit := i\<rparr>)"
    "parse_lcov_data_line (''LH:'' @ str_int i) fc = Inr (fc\<lparr>lines_hit := i\<rparr>)"
    "parse_lcov_data_line (''LF:'' @ str_int i) fc = Inr (fc\<lparr>lines_found := i\<rparr>)"
  using assms by (simp_all add: parse_lcov_data_line_def replace_labels)

lemma split_data_line:
  "split_on CHR '','' (''DA:'' @ str_int a @ '','' @ str_int b) = [''DA:'' @ str_int a, str_int b]"
  using split_on_append [of "CHR '',''" "''DA:'' @ str_int a" "str_int b"] by (simp add: split_on_single)

lemma parse_data_line:
  "short (fst d) \<Longrightarrow> short (snd d) \<Longrightarrow>
   parse_lcov_data_line (data_line d) fc =
     Inr (if snd d = 0 then fc\<lparr>uncovered_lines := uncovered_lines fc @ [fst d]\<rparr> else fc)"
  using split_data_line [of "fst d" "snd d"]
  by (simp add: data_line_def case_prod_beta parse_lcov_data_line_def item_def replace_labels)

lemma split_branch_line:
  assumes "CHR '','' \<notin> set t"
  shows "split_on CHR '','' (''BRDA:'' @ str_int a @ '','' @ str_int b @ '','' @ str_int c @ '','' @ t) =
    [''BRDA:'' @ str_int a, str_int b, str_int c, t]"
  using split_on_append [of "CHR '',''" "''BRDA:'' @ str_int a" "str_int b @ '','' @ str_int c @ '','' @ t"]
    split_on_append [of "CHR '',''" "str_int b" "str_int c @ '','' @ t"]
    split_on_append [of "CHR '',''" "str_int c" t] assms
  by (simp add: split_on_single)

lemma parse_branch_line:
  assumes "short line" "short block" "short branch"
  shows "parse_lcov_data_line (branch_line (line, block, branch, taken)) fc =
    Inr (if taken = None then fc\<lparr>uncovered_branches := uncovered_branches fc @ [(line, block, branch)]\<rparr> else fc)"
proof -
  let ?t = "case taken of None \<Rightarrow> ''-'' | Some n \<Rightarrow> str_int (int n)"
  have t: "CHR '','' \<notin> set ?t" "?t = ''-'' \<longleftrightarrow> taken = None"
  proof -
    show "CHR '','' \<notin> set ?t" by (cases taken) auto
    have "str_int i \<noteq> ''-''" for i
    proof
      assume "str_int i = ''-''"
      then have "is_digit (last ''-'')" using str_int_last [of i] by simp
      then show False by (simp add: is_digit_def)
    qed
    then show "?t = ''-'' \<longleftrightarrow> taken = None" by (cases taken) auto
  qed
  show ?thesis
    using split_branch_line [OF t(1), of line block branch] t(2) assms
    by (simp add: branch_line_def parse_lcov_data_line_def item_def replace_labels numeral_2_eq_2 numeral_3_eq_3)
qed

lemma foldE_append: "foldE f st (xs @ ys) = bindE (foldE f st xs) (\<lambda>st'. foldE f st' ys)"
proof (induction xs arbitrary: st)
  case (Cons x xs)
  then show ?case by (cases "f st x") simp_all
qed simp

abbreviation read_line :: "file_coverage \<Rightarrow> string \<Rightarrow> exn + file_coverage" where
  "read_line \<equiv> \<lambda>fc l. parse_lcov_data_line l fc"

lemma fold_branch_lines:
  "list_all (\<lambda>(line, block, branch, _). short line \<and> short block \<and> short branch) bs \<Longrightarrow>
   foldE read_line fc (map branch_line bs) =
     Inr (fc\<lparr>uncovered_branches := uncovered_branches fc @
       map (\<lambda>(line, block, branch, _). (line, block, branch)) (filter (\<lambda>(_, _, _, taken). taken = None) bs)\<rparr>)"
proof (induction bs arbitrary: fc)
  case (Cons b bs)
  obtain line block branch taken where b: "b = (line, block, branch, taken)" by (cases b)
  show ?case using Cons by (simp add: b parse_branch_line)
qed simp

lemma fold_data_lines:
  "list_all (\<lambda>(line, hits). short line \<and> short hits) ds \<Longrightarrow>
   foldE read_line fc (map data_line ds) =
     Inr (fc\<lparr>uncovered_lines := uncovered_lines fc @ map fst (filter (\<lambda>(_, hits). hits = 0) ds)\<rparr>)"
proof (induction ds arbitrary: fc)
  case (Cons d ds)
  then show ?case by (cases d) (simp add: parse_data_line)
qed simp

lemma fold_body_lines:
  "record_ok r \<Longrightarrow> foldE read_line (new_file_coverage (r_path r)) (body_lines r) = Inr (coverage_of r)"
  by (simp add: body_lines_def foldE_append fold_branch_lines fold_data_lines record_ok_def
      parse_count_lines [unfolded append.simps] new_file_coverage_def coverage_of_def)

text \<open>Lines that the reader hands to \<^verbatim>\<open>parse_lcov_data_line\<close> unchanged.\<close>

definition body_line :: "string \<Rightarrow> bool" where
  "body_line l = (strip l = l \<and> \<not> startswith l ''SF:'' \<and> l \<noteq> ''end_of_record'' \<and> nl \<notin> set l)"

lemma digit_last_line:
  assumes "is_digit (last s) \<or> last s = CHR ''-''" "s \<noteq> []" "l = c # pre @ s" "\<not> is_space c"
  shows "strip l = l" "l \<noteq> ''end_of_record''"
proof -
  have last: "last l = last s" using assms by simp
  have "\<not> is_space (last l)" using assms(1) digit_not_space last by (auto simp: is_space_def)
  then show "strip l = l" using assms by (intro strip_no_space) simp_all
  have "\<not> is_digit CHR ''d''" by (simp add: is_digit_def)
  then show "l \<noteq> ''end_of_record''" using last assms(1) by auto
qed

lemma count_line:
  "pre \<in> {''BRF:'', ''BRH:'', ''LH:'', ''LF:''} \<Longrightarrow> body_line (pre @ str_int i)"
  using digit_last_line [of "str_int i" _ "hd pre" "tl pre"] str_int_last [of i]
  by (auto simp: body_line_def is_space_def)

lemma body_line_data: "body_line (data_line d)"
  using digit_last_line [of "str_int (snd d)" _ "CHR ''D''" "''A:'' @ str_int (fst d) @ '',''"] str_int_last [of "snd d"]
  by (auto simp: body_line_def data_line_def is_space_def case_prod_beta)

lemma body_line_branch: "body_line (branch_line b)"
proof -
  obtain line block branch taken where b: "b = (line, block, branch, taken)" by (cases b)
  let ?t = "case taken of None \<Rightarrow> ''-'' | Some n \<Rightarrow> str_int (int n)"
  have t: "?t \<noteq> []" "is_digit (last ?t) \<or> last ?t = CHR ''-''" "nl \<notin> set ?t"
    using str_int_last by (auto split: option.splits)
  show ?thesis
    using digit_last_line [OF t(2,1), of _ "CHR ''B''" "''RDA:'' @ str_int line @ '','' @ str_int block @ '','' @ str_int branch @ '',''"] t(3)
    by (auto simp: body_line_def branch_line_def is_space_def b)
qed

lemma body_lines_ok: "list_all body_line (body_lines r)"
  using count_line body_line_data body_line_branch
  by (auto simp: body_lines_def list_all_iff simp del: append_Cons)

lemma dict_set_twice [simp]: "dict_set (dict_set d k v) k v' = dict_set d k v'"
  by (induction d k v rule: dict_set.induct) auto

lemma fold_lcov_body:
  "list_all body_line ls \<Longrightarrow> p \<noteq> [] \<Longrightarrow>
   foldE lcov_line (dict_set d p fc, Some p) ls =
     bindE (foldE read_line fc ls) (\<lambda>fc'. Inr (dict_set d p fc', Some p))"
proof (induction ls arbitrary: fc)
  case (Cons l ls)
  have "lcov_line (dict_set d p fc, Some p) l = bindE (read_line fc l) (\<lambda>fc'. Inr (dict_set d p fc', Some p))"
    using Cons.prems by (simp add: lcov_line_def body_line_def Let_def)
  then show ?case using Cons by (cases "read_line fc l") simp_all
qed simp

definition record_lines :: "lcov_record \<Rightarrow> string list" where
  "record_lines r = [''SF:'' @ r_path r] @ body_lines r @ [''end_of_record'']"

lemma source_line:
  assumes "record_ok r"
  shows "lcov_line (d, cur) (''SF:'' @ r_path r) =
    Inr (dict_set d (r_path r) (new_file_coverage (r_path r)), Some (r_path r))"
proof -
  have "strip (''SF:'' @ r_path r) = ''SF:'' @ r_path r"
    using assms by (intro strip_no_space) (auto simp: record_ok_def is_space_def)
  moreover have "replace ''SF:'' [] (''SF:'' @ r_path r) = r_path r"
    using assms by (simp add: replace_prefix replace_absent record_ok_def del: append_Cons)
  ultimately show ?thesis by (simp add: lcov_line_def Let_def)
qed

lemma fold_record:
  assumes "record_ok r"
  shows "foldE lcov_line (d, cur) (record_lines r) = Inr (dict_set d (r_path r) (coverage_of r), None)"
proof -
  have "strip ''end_of_record'' = ''end_of_record''" by code_simp
  then have e: "lcov_line (d', cur') ''end_of_record'' = Inr (d', None)" for d' cur' by (simp add: lcov_line_def)
  have "r_path r \<noteq> []" using assms by (simp add: record_ok_def)
  then have "foldE lcov_line (dict_set d (r_path r) (new_file_coverage (r_path r)), Some (r_path r)) (body_lines r) =
    Inr (dict_set d (r_path r) (coverage_of r), Some (r_path r))"
    using fold_lcov_body [OF body_lines_ok] fold_body_lines [OF assms] by simp
  then show ?thesis
    using source_line [OF assms] e by (simp add: record_lines_def foldE_append)
qed

lemma fold_records:
  "list_all record_ok rs \<Longrightarrow> distinct (dict_keys d @ map r_path rs) \<Longrightarrow>
   foldE lcov_line (d, None) (concat (map record_lines rs)) = Inr (d @ map (\<lambda>r. (r_path r, coverage_of r)) rs, None)"
proof (induction rs arbitrary: d)
  case (Cons r rs)
  then have "dict_set d (r_path r) (coverage_of r) = d @ [(r_path r, coverage_of r)]" by (intro dict_set_absent) auto
  then show ?case
    using Cons.IH [of "d @ [(r_path r, coverage_of r)]"] Cons.prems by (simp add: foldE_append fold_record)
qed simp

lemma text_lines_concat:
  assumes "list_all (\<lambda>l. nl \<notin> set l) ls"
  shows "text_lines (concat (map (\<lambda>l. l @ [nl]) ls)) = ls"
proof -
  have "split_on nl (concat (map (\<lambda>l. l @ [nl]) ls)) = ls @ [[]]"
    using assms by (induction ls) (simp_all add: split_on_append)
  then show ?thesis by (simp add: text_lines_def)
qed

lemma record_lines_no_nl: "record_ok r \<Longrightarrow> list_all (\<lambda>l. nl \<notin> set l) (record_lines r)"
  using body_lines_ok [of r] by (auto simp: record_lines_def record_ok_def list_all_iff body_line_def)

lemma parse_lcov_records:
  assumes "list_all record_ok rs" "distinct (map r_path rs)"
  shows "parse_lcov (lcov_text rs) = Inr (map (\<lambda>r. (r_path r, coverage_of r)) rs)"
proof -
  have "lcov_text rs = concat (map (\<lambda>l. l @ [nl]) (concat (map record_lines rs)))"
    by (induction rs) (simp_all add: lcov_text_def record_lines_def)
  moreover have "list_all (\<lambda>l. nl \<notin> set l) (concat (map record_lines rs))"
    using assms(1) record_lines_no_nl by (fastforce simp: list_all_iff)
  ultimately have "text_lines (lcov_text rs) = concat (map record_lines rs)" using text_lines_concat by simp
  then show ?thesis using fold_records [of rs "[]"] assms by (simp add: parse_lcov_def)
qed

text \<open>
  C29. Reading an LCOV file gives back the records it was written from: for records of different
  files, with the counts, the lines with no hit and the branches of blocks that were never reached.
\<close>

theorem parse_lcov_roundtrip:
  assumes "list_all record_ok rs" "distinct (map r_path rs)"
  shows "parse_lcov (lcov_text rs) = Inr (map (\<lambda>r. (r_path r, coverage_of r)) rs)"
  using assms by (rule parse_lcov_records)

definition sample_record :: lcov_record where
  "sample_record =
     \<lparr>r_path = ''a.cc'', r_branches = [(3, 0, 0, None), (3, 0, 1, Some 2)], r_branches_found = 2, r_branches_hit = 1,
      r_lines = [(3, 2), (4, 0)], r_lines_hit = 1, r_lines_found = 2\<rparr>"

lemma sample_record_ok: "record_ok sample_record"
  by code_simp

theorem parse_lcov_roundtrip_witness:
  "parse_lcov (lcov_text [sample_record]) = Inr [(''a.cc'', coverage_of sample_record)] \<and>
   uncovered_branches (coverage_of sample_record) = [(3, 0, 0)]"
  using parse_lcov_roundtrip [of "[sample_record]"] sample_record_ok
  by (simp add: sample_record_def coverage_of_def)

section \<open>The script as a whole\<close>













lemma coverage_failed_raises: "coverage_failed e w \<noteq> (Inr x, w')"
  by (cases e) (auto simp: coverage_failed_def bindM_Inr)

text \<open>
  C31. The two versions of \<^verbatim>\<open>run_bazel_coverage\<close> do the same, but for the report they return: the one
  of \<^verbatim>\<open>src/container-tools\<close> always names the file below the project root, the other one the file
  below the working directory where that exists.
\<close>

theorem run_bazel_coverage_versions:
  "case run_bazel_coverage target w of
     (Inr p, w') \<Rightarrow> \<exists>project_root. fst (find_project_root w) = Inr project_root \<and>
       run_bazel_coverage_at_root target w = (Inr (report_below project_root), w') \<and>
       p = report_below (if exists_at (w_fs w') (comps w' (report_below (cwd_path w'))) then cwd_path w' else project_root)
   | (Inl e, w') \<Rightarrow> run_bazel_coverage_at_root target w = (Inl e, w')"
proof -
  obtain r w1 where f: "find_project_root w = (r, w1)" by fastforce
  show ?thesis
  proof (cases r)
    case (Inl e)
    then show ?thesis by (simp add: run_bazel_coverage_def run_bazel_coverage_at_root_def bindM_run f)
  next
    case (Inr q)
    obtain x w2 where x: "run_checked False (coverage_cmd q target) w1 = (x, w2)" by fastforce
    note defs = run_bazel_coverage_def run_bazel_coverage_at_root_def bindM_run catchM_def path_exists_def
    show ?thesis
    proof (cases x)
      case x': (Inl e)
      show ?thesis using f Inr x x' by (auto simp: defs coverage_failed_raises split: prod.splits sum.splits)
    next
      case x': (Inr out)
      let ?p = "report_below (if exists_at (w_fs w2) (comps w2 (report_below (cwd_path w2))) then cwd_path w2 else q)"
      have "run_bazel_coverage target w = (Inr ?p, w2)"
        "run_bazel_coverage_at_root target w = (Inr (report_below q), w2)"
        using f Inr x x' by (simp_all add: defs)
      then show ?thesis using f Inr by simp
    qed
  qed
qed

end
