(* ===== verification/ContainerEvents.thy ===== *)
theory ContainerEvents
  imports PyFiles
begin

text \<open>
  \<^verbatim>\<open>src/.devkit/scripts/container_event_handler.py\<close>: a thread that listens on a socket for events of the
  container, and the event that stops it.

  The handling of one message is a function on the world.  The thread is a state machine: \<open>listener_turn\<close>
  takes it from one blocking call to the next, for a given answer of the network, and \<open>step\<close>
  interleaves it with the two halves of \<^verbatim>\<open>SocketCancelEvent.set\<close>, which the main thread runs.  What the
  code relies on is how a socket behaves: shutting down a listening socket makes \<^verbatim>\<open>accept\<close> fail, now and
  later, and shutting down a socket that does not listen is an \<^verbatim>\<open>OSError\<close>.
\<close>

section \<open>Decoding\<close>

text \<open>\<^verbatim>\<open>bytes.decode(errors="replace")\<close>: every maximal part of a broken sequence becomes U+FFFD.\<close>

definition replacement :: string where
  "replacement = [char_of (239 :: nat), char_of (191 :: nat), char_of (189 :: nat)]"

text \<open>The second byte that may follow a lead byte of a sequence of three or four bytes.\<close>

definition second_ok :: "nat \<Rightarrow> char \<Rightarrow> bool" where
  "second_ok n b =
     (is_cont b \<and> (n = 224 \<longrightarrow> 160 \<le> (of_char b :: nat)) \<and> (n = 237 \<longrightarrow> (of_char b :: nat) < 160) \<and>
      (n = 240 \<longrightarrow> 144 \<le> (of_char b :: nat)) \<and> (n = 244 \<longrightarrow> (of_char b :: nat) < 144))"

text \<open>Whether the next bytes are a character or a broken sequence, and how many there are.\<close>

definition next_char :: "char \<Rightarrow> string \<Rightarrow> bool \<times> nat" where
  "next_char a s =
     (let n = (of_char a :: nat);
          cont = (\<lambda>i. i < length s \<and> is_cont (s ! i));
          second = (0 < length s \<and> second_ok n (s ! 0))
      in if n < 128 then (True, 1)
         else if 194 \<le> n \<and> n < 224 then (if cont 0 then (True, 2) else (False, 1))
         else if 224 \<le> n \<and> n < 240 then
           (if \<not> second then (False, 1) else if cont 1 then (True, 3) else (False, 2))
         else if 240 \<le> n \<and> n \<le> 244 then
           (if \<not> second then (False, 1) else if \<not> cont 1 then (False, 2)
            else if cont 2 then (True, 4) else (False, 3))
         else (False, 1))"

lemma next_char_pos [simp]: "0 < snd (next_char a s)"
  by (simp add: next_char_def Let_def)

function decode_replace :: "string \<Rightarrow> string" where
  "decode_replace [] = []"
| "decode_replace (a # s) =
     (case next_char a s of (good, k) \<Rightarrow>
        (if good then take k (a # s) else replacement) @ decode_replace (drop (k - 1) s))"
  by pat_completeness auto
termination
  by (relation "measure length") auto

section \<open>Time\<close>

text \<open>
  \<^verbatim>\<open>datetime.fromtimestamp(x, timezone.utc)\<close> for a non-negative float, rounded to microseconds: the range
  of \<^verbatim>\<open>time_t\<close>, then the years that \<^verbatim>\<open>gmtime\<close> can represent, then the years of \<^verbatim>\<open>datetime\<close>.
\<close>

definition time_t_limit :: rat where
  "time_t_limit = 2 ^ 63"

definition gmtime_limit :: int where
  "gmtime_limit = 67768036191676800"

definition datetime_limit :: int where
  "datetime_limit = 253402300800"

definition split_seconds :: "rat \<Rightarrow> int \<times> int" where
  "split_seconds x =
     (let us = round_half_even (fl ((x - of_int \<lfloor>x\<rfloor>) * 1000000))
      in if us = 1000000 then (\<lfloor>x\<rfloor> + 1, 0) else (\<lfloor>x\<rfloor>, us))"

definition fromtimestamp :: "pyfloat \<Rightarrow> exn + int \<times> int" where
  "fromtimestamp x =
     (case x of
        Fin r \<Rightarrow>
          (if time_t_limit \<le> r then Inl (OverflowError ''timestamp out of range for platform time_t'')
           else let (secs, us) = split_seconds r
                in if gmtime_limit \<le> secs then Inl (OSError ''Value too large for defined data type'')
                   else if datetime_limit \<le> secs then Inl (ValueError ''year is out of range'')
                   else Inr (secs, us))
      | Inf _ \<Rightarrow> Inl (OverflowError ''cannot convert float infinity to integer'')
      | NaN \<Rightarrow> Inl (ValueError ''cannot convert float NaN to integer''))"

definition leap :: "nat \<Rightarrow> bool" where
  "leap y = (4 dvd y \<and> (\<not> 100 dvd y \<or> 400 dvd y))"

definition year_days :: "nat \<Rightarrow> nat" where
  "year_days y = (if leap y then 366 else 365)"

definition month_days :: "nat \<Rightarrow> nat list" where
  "month_days y = [31, if leap y then 29 else 28, 31, 30, 31, 30, 31, 31, 30, 31, 30, 31]"

function year_of :: "nat \<Rightarrow> nat \<Rightarrow> nat \<times> nat" where
  "year_of y days = (if days < year_days y then (y, days) else year_of (Suc y) (days - year_days y))"
  by pat_completeness auto
termination
  by (relation "measure snd") (auto simp: year_days_def split: if_splits)

fun month_of :: "nat \<Rightarrow> nat list \<Rightarrow> nat \<Rightarrow> nat \<times> nat" where
  "month_of m (n # ns) days = (if days < n then (m, days) else month_of (Suc m) ns (days - n))"
| "month_of m [] days = (m, days)"

definition pad :: "nat \<Rightarrow> nat \<Rightarrow> string" where
  "pad k n = (let s = str_nat n in replicate (k - length s) CHR ''0'' @ s)"

text \<open>\<^verbatim>\<open>isoformat()\<close> of a time in UTC.\<close>

definition isoformat :: "int \<times> int \<Rightarrow> string" where
  "isoformat t =
     (let secs = nat (fst t); us = nat (snd t); (y, yd) = year_of 1970 (secs div 86400);
          (m, d) = month_of 1 (month_days y) yd; sd = secs mod 86400
      in pad 4 y @ ''-'' @ pad 2 m @ ''-'' @ pad 2 (Suc d) @ ''T'' @ pad 2 (sd div 3600) @ '':'' @
         pad 2 (sd div 60 mod 60) @ '':'' @ pad 2 (sd mod 60) @ (if us = 0 then [] else ''.'' @ pad 6 us) @ ''+00:00'')"

section \<open>Events\<close>

definition report_latency :: "int \<Rightarrow> unit io" where
  "report_latency ts_end =
     bindM (getM (\<lambda>w. map_of (w_env w) ''DEVKIT_START_TIME_MS'')) (\<lambda>start_time_env.
       case start_time_env of
         Some (c # s) \<Rightarrow>
           catchM
             (bindM (liftM (py_int (c # s))) (\<lambda>ts_start.
                log_info (''Calculated latency until entrypoint end: '' @ str_int (ts_end - ts_start) @ '' ms'')))
             is_value_error
             (\<lambda>_. log_warning (''DEVKIT_START_TIME_MS is not a valid integer: '' @ (c # s)))
       | _ \<Rightarrow> log_warning ''DEVKIT_START_TIME_MS environment variable not found.'')"

definition parse_end_time :: "string \<Rightarrow> exn + int \<times> int \<times> int" where
  "parse_end_time value =
     bindE (py_int (strip value)) (\<lambda>ts_end.
     if ts_end < 0 then Inl (ValueError ''Timestamp cannot be negative.'')
     else bindE (int_truediv ts_end 1000) (\<lambda>x.
          bindE (fromtimestamp x) (\<lambda>dt_end. Inr (ts_end, dt_end))))"

definition handle_entrypoint_end_time_ms :: "string \<Rightarrow> unit io" where
  "handle_entrypoint_end_time_ms value =
     catchM
       (bindM (liftM (parse_end_time value)) (\<lambda>(ts_end, dt_end).
        bindM (log_info (''Successfully parsed entrypoint end time: '' @ isoformat dt_end)) (\<lambda>_.
          report_latency ts_end)))
       is_value_error
       (\<lambda>e. log_error (''Failed to parse entrypoint_end_time_ms: '' @ exn_str e))"

definition process_container_event :: "string \<Rightarrow> unit io" where
  "process_container_event data =
     (let decoded_data = strip (decode_replace data)
      in bindM (log_info (''Container event data: '' @ decoded_data)) (\<lambda>_.
         if CHR '':'' \<in> set decoded_data then
           (case split_first CHR '':'' decoded_data of (event_name, event_value) \<Rightarrow>
              if event_name = ''entrypoint_end_time_ms'' then handle_entrypoint_end_time_ms event_value
              else log_warning (''Unknown container event: '' @ event_name))
         else log_warning (''Malformed container event: '' @ decoded_data)))"

section \<open>The listener\<close>

text \<open>Where the thread is: before \<^verbatim>\<open>listen\<close>, at the head of the loop, in \<^verbatim>\<open>accept\<close>, in \<^verbatim>\<open>recv\<close>, or at its
  end.\<close>

datatype pc = Begin | Check | Accepting | Receiving | Finished

record server =
  s_port :: int
  event_set :: bool
  cancelling :: bool
  listening :: bool
  shut_down :: bool
  closed :: bool
  s_pc :: pc
  s_world :: world

text \<open>What the network answers.\<close>

datatype net = ListenOk | ListenError string | NoWait | Conn | AcceptError string | Data string | RecvError string

definition log_server :: "level \<Rightarrow> string \<Rightarrow> server \<Rightarrow> server" where
  "log_server l s st = st\<lparr>s_world := snd (emit (Log l s) (s_world st))\<rparr>"

text \<open>The \<^verbatim>\<open>finally\<close> clause.\<close>

definition finish :: "server \<Rightarrow> server" where
  "finish st = st\<lparr>closed := True, s_pc := Finished\<rparr>"

text \<open>The \<^verbatim>\<open>except\<close> clauses of the loop; both leave it.\<close>

definition leave_loop :: "exn \<Rightarrow> server \<Rightarrow> server" where
  "leave_loop e st =
     finish
       (if event_set st then st
        else if is_os_error e then log_server ERROR (''Error in container event listener: '' @ exn_str e) st
        else log_server ERROR (''Unexpected error in container event listener: '' @ exn_str e) st)"

definition begin_listening :: "server \<Rightarrow> server" where
  "begin_listening st =
     (log_server INFO (''Container event handler listening on TCP 127.0.0.1:'' @ str_int (s_port st)) st)
       \<lparr>listening := True, s_pc := Check\<rparr>"

definition received :: "string \<Rightarrow> server \<Rightarrow> server" where
  "received data st =
     (if data = [] then st\<lparr>s_pc := Check\<rparr>
      else
        let st1 = log_server INFO ''Received event from container'' st
        in case process_container_event data (s_world st1) of
             (Inr _, w) \<Rightarrow> st1\<lparr>s_world := w, s_pc := Check\<rparr>
           | (Inl e, w) \<Rightarrow> leave_loop e (st1\<lparr>s_world := w\<rparr>))"

definition listener_turn :: "net \<Rightarrow> server \<Rightarrow> server option" where
  "listener_turn answer st =
     (case (s_pc st, answer) of
        (Begin, ListenOk) \<Rightarrow> Some (begin_listening st)
      | (Begin, ListenError m) \<Rightarrow>
          Some (finish (log_server ERROR (''Failed in container event listener: '' @ m) st))
      | (Check, NoWait) \<Rightarrow> Some (if event_set st then finish st else st\<lparr>s_pc := Accepting\<rparr>)
      | (Accepting, Conn) \<Rightarrow> (if shut_down st then None else Some (st\<lparr>s_pc := Receiving\<rparr>))
      | (Accepting, AcceptError m) \<Rightarrow> Some (leave_loop (OSError m) st)
      | (Receiving, Data d) \<Rightarrow> Some (received d st)
      | (Receiving, RecvError m) \<Rightarrow> Some (leave_loop (OSError m) st)
      | _ \<Rightarrow> None)"

text \<open>\<^verbatim>\<open>SocketCancelEvent.set\<close>: the event first, then the socket; the \<^verbatim>\<open>OSError\<close> of a socket that does not
  listen is ignored.\<close>

definition set_event :: "server \<Rightarrow> server" where
  "set_event st = st\<lparr>event_set := True, cancelling := True\<rparr>"

definition shutdown_socket :: "server \<Rightarrow> server" where
  "shutdown_socket st =
     st\<lparr>shut_down := (shut_down st \<or> (listening st \<and> \<not> closed st)), cancelling := False\<rparr>"

definition new_server :: "int \<Rightarrow> world \<Rightarrow> server" where
  "new_server port w =
     \<lparr>s_port = port, event_set = False, cancelling = False, listening = False, shut_down = False, closed = False,
      s_pc = Begin, s_world = w\<rparr>"

text \<open>The thread's name, whether it is a daemon, what it starts with, and the port; binding the
  socket may fail.\<close>

definition start_container_event_handler :: "exn + int \<Rightarrow> world \<Rightarrow> exn + (string \<times> bool) \<times> server \<times> int" where
  "start_container_event_handler bound w =
     bindE bound (\<lambda>port. Inr ((''ContainerEventHandler-'' @ str_int port, True), new_server port w, port))"

inductive step :: "server \<Rightarrow> server \<Rightarrow> bool" where
  turn: "listener_turn answer st = Some st' \<Longrightarrow> step st st'"
| set_first: "\<not> cancelling st \<Longrightarrow> step st (set_event st)"
| set_second: "cancelling st \<Longrightarrow> step st (shutdown_socket st)"

inductive_cases stepE: "step st st'"

section \<open>Decoding gives text\<close>

lemma utf8_valid_replacement: "utf8_valid (replacement @ s) = utf8_valid s"
  by (simp add: replacement_def is_cont_def)

lemma next_char_valid:
  assumes "next_char a s = (True, k)"
  shows "utf8_valid (take k (a # s) @ t) = utf8_valid t"
proof -
  consider "s = []" | b where "s = [b]" | b c where "s = [b, c]" | b c d r where "s = b # c # d # r"
    by (metis list.exhaust)
  then show ?thesis
    using assms by cases (auto simp: next_char_def second_ok_def Let_def split: if_splits)
qed

lemma decode_replace_valid: "utf8_valid (decode_replace s)"
proof (induction s rule: decode_replace.induct)
  case (2 a s)
  obtain good k where n: "next_char a s = (good, k)" by fastforce
  then have IH: "utf8_valid (decode_replace (drop (k - 1) s))" using "2.IH" by simp
  show ?case
    using IH n next_char_valid [of a s k] by (cases good) (simp_all add: utf8_valid_replacement)
qed simp

lemma next_char_of_valid:
  assumes "utf8_valid (a # s)"
  shows "fst (next_char a s) \<and> utf8_valid (drop (snd (next_char a s) - 1) s)"
proof -
  define n where "n = (of_char a :: nat)"
  note defs = next_char_def second_ok_def Let_def utf8_valid.simps(2) [of a s] n_def [symmetric]
  consider (one) "n < 128" | (two) "\<not> n < 128" "194 \<le> n" "n < 224"
    | (three) "\<not> n < 128" "\<not> n < 224" "224 \<le> n" "n < 240" "n \<noteq> 240" "n \<noteq> 244"
    | (four) "\<not> n < 128" "\<not> n < 224" "\<not> n < 240" "240 \<le> n" "n \<le> 244" "n \<noteq> 224" "n \<noteq> 237"
    | (bad) "\<not> n < 128" "\<not> (194 \<le> n \<and> n < 224)" "\<not> (224 \<le> n \<and> n < 240)" "\<not> (240 \<le> n \<and> n \<le> 244)"
    by linarith
  then show ?thesis
  proof cases
    case one
    then show ?thesis using assms by (simp add: defs)
  next
    case two
    then show ?thesis using assms by (cases s) (simp_all add: defs)
  next
    case three
    then obtain b c r where "s = b # c # r" using assms by (auto simp: defs split: list.splits)
    then show ?thesis using assms three by (simp add: defs)
  next
    case four
    then obtain b c d r where "s = b # c # d # r" using assms by (auto simp: defs split: list.splits)
    then show ?thesis using assms four by (simp add: defs)
  next
    case bad
    then show ?thesis using assms by (auto simp: defs split: list.splits)
  qed
qed

text \<open>Valid text is not changed.\<close>

lemma decode_replace_id: "utf8_valid s \<Longrightarrow> decode_replace s = s"
proof (induction s rule: decode_replace.induct)
  case (2 a s)
  obtain k where k: "next_char a s = (True, k)" "utf8_valid (drop (k - 1) s)"
    using next_char_of_valid [OF "2.prems"] by (metis prod.collapse)
  have "0 < k" using next_char_pos [of a s] k(1) by simp
  then have "take k (a # s) @ drop (k - 1) s = a # s" by (cases k) simp_all
  then show ?case using "2.IH" [OF k(1) [symmetric]] k by simp
qed simp

lemma utf8_valid_ascii: "list_all (\<lambda>c. (of_char c :: nat) < 128) s \<Longrightarrow> utf8_valid s"
  by (induction s) auto

section \<open>Timestamps\<close>

lemma rhe_near: "\<bar>q - of_int i\<bar> < 1 / 2 \<Longrightarrow> round_half_even q = i"
  using rhe_nearest [of q] by linarith

lemma fl_error:
  assumes "0 \<le> r" "r < pow2 (e + 53)" "-1074 \<le> e"
  shows "\<bar>fl r - r\<bar> \<le> pow2 e / 2"
proof (cases "r = 0")
  case False
  then have r: "0 < r" using assms(1) by simp
  let ?u = "pow2 (ulp_exp r)"
  have "\<bar>fl r - r\<bar> = \<bar>of_int (round_half_even (r / ?u)) - r / ?u\<bar> * ?u"
    using r by (simp add: fl_def fl_pos_def abs_mult_pos left_diff_distrib)
  also have "\<dots> \<le> 1 / 2 * ?u" using rhe_nearest by (intro mult_right_mono) simp_all
  also have "\<dots> \<le> pow2 e / 2" using pow2_mono [OF ulp_exp_le [OF r assms(2,3)]] by simp
  finally show ?thesis .
qed simp

lemma truediv_below:
  assumes "0 \<le> ts" "ts \<le> b * 1000" "fl (of_int b) = of_int b" "b \<le> 2 ^ 100"
  shows "int_truediv ts 1000 = Inr (Fin (fl (of_int ts / 1000)))" "fl (of_int ts / 1000) \<le> of_int b"
    "0 \<le> fl (of_int ts / 1000 :: rat)"
proof -
  have "(of_int ts :: rat) \<le> of_int (b * 1000)" using assms(2) by (simp only: of_int_le_iff)
  then have "(of_int ts / 1000 :: rat) \<le> of_int b" by simp
  then show le: "fl (of_int ts / 1000) \<le> of_int b" using assms(3) by (rule fl.le_representable)
  show nonneg: "0 \<le> fl (of_int ts / 1000 :: rat)" using fl_mono [of 0 "of_int ts / 1000"] assms(1) by simp
  have "(of_int b :: rat) \<le> of_int (2 ^ 100)" using assms(4) by (simp only: of_int_le_iff)
  also have "\<dots> = pow2 100" by (simp add: pow2_nat)
  also have "\<dots> < pow2 1024" by (rule pow2_less) simp
  finally have "\<bar>fl (of_int ts / 1000 :: rat)\<bar> < pow2 1024" using le nonneg by simp
  then show "int_truediv ts 1000 = Inr (Fin (fl (of_int ts / 1000)))"
    by (simp add: int_truediv_def round_float_def Let_def)
qed

text \<open>The last float below the range of \<^verbatim>\<open>gmtime\<close>.\<close>

definition last_second :: int where
  "last_second = 67768036191676792"

lemma fl_last_second: "fl (of_int last_second) = of_int last_second"
proof -
  have "of_int last_second = of_int 8471004523959599 * pow2 3" by (simp add: last_second_def pow2_def)
  then show ?thesis using fl_representable [of 8471004523959599 3] by (simp add: fl_def)
qed

lemma parse_end_time_small:
  assumes "py_int (strip value) = Inr ts" "ts \<le> last_second * 1000" "parse_end_time value = Inl e"
  shows "is_value_error e"
proof (cases "ts < 0")
  case True
  then show ?thesis using assms(1,3) by (auto simp: parse_end_time_def)
next
  case False
  let ?x = "fl (of_int ts / 1000) :: rat"
  have b: "last_second \<le> 2 ^ 100" by (simp add: last_second_def)
  have ts: "0 \<le> ts" using False by simp
  note x = truediv_below [OF ts assms(2) fl_last_second b]
  have "\<lfloor>?x\<rfloor> \<le> last_second" using x(2) by (simp add: floor_le_iff)
  then have "fst (split_seconds ?x) < gmtime_limit"
    by (simp add: split_seconds_def Let_def gmtime_limit_def last_second_def)
  moreover have "?x < time_t_limit"
    using x(2) by (simp add: time_t_limit_def last_second_def)
  ultimately show ?thesis
    using assms(1,3) False x(1)
    by (auto simp: parse_end_time_def fromtimestamp_def split: prod.splits if_splits)
qed

lemma parse_end_time_error:
  "parse_end_time value = Inl e \<Longrightarrow> is_value_error e \<or> e \<in> range OverflowError \<union> range OSError"
  by (auto simp: parse_end_time_def py_int_def bindE_Inl int_truediv_def fromtimestamp_def Let_def
      split: option.splits if_splits pyfloat.splits prod.splits)

lemma report_latency_total: "raises_in {} (report_latency ts)"
proof -
  have "raises_in {e. is_value_error e} (liftM (py_int s))" for s
    by (rule raises_in_liftM) (auto simp: py_int_def split: option.splits)
  then show ?thesis
    unfolding report_latency_def
    by (intro raises_in_bindM raises_in_getM, auto split: option.splits list.splits
        intro!: raises_in_intros raises_in_catchM [where T = "{e. is_value_error e}"])
qed

lemma handle_errors:
  "raises_in {e. \<not> is_value_error e \<and> parse_end_time value = Inl e} (handle_entrypoint_end_time_ms value)"
  unfolding handle_entrypoint_end_time_ms_def
  by (rule raises_in_catchM [where T = "{e. parse_end_time value = Inl e}"])
    (auto intro!: raises_in_bindM raises_in_liftM raises_in_emit raises_in_mono [OF report_latency_total])

text \<open>
  C32. A message is handled without an exception, whatever its bytes are, unless it is an
  \<^verbatim>\<open>entrypoint_end_time_ms\<close> event whose number lies beyond the range of the platform's clock: only then
  an \<^verbatim>\<open>OverflowError\<close> or an \<^verbatim>\<open>OSError\<close> escapes.
\<close>

theorem process_container_event_errors:
  "case fst (process_container_event data w) of
     Inr _ \<Rightarrow> True
   | Inl e \<Rightarrow> e \<in> range OverflowError \<union> range OSError \<and>
       (\<exists>value ts. strip (decode_replace data) = ''entrypoint_end_time_ms:'' @ value \<and>
          parse_int (strip value) = Some ts \<and> last_second * 1000 < ts)"
proof (cases "fst (process_container_event data w)")
  case (Inl e)
  let ?d = "strip (decode_replace data)"
  obtain name val where nv: "split_first CHR '':'' ?d = (name, val)" by fastforce
  have h: "CHR '':'' \<in> set ?d" "name = ''entrypoint_end_time_ms''"
    and r: "\<exists>w1 w2. handle_entrypoint_end_time_ms val w1 = (Inl e, w2)"
    using Inl by (auto simp: process_container_event_def Let_def bindM_run nv split: if_splits prod.splits)
      (metis prod.collapse)
  then have p: "\<not> is_value_error e" "parse_end_time val = Inl e" using raises_inD [OF handle_errors] by fast+
  have d: "?d = ''entrypoint_end_time_ms:'' @ val" using split_first_correct [OF h(1)] nv h(2) by simp
  obtain ts where ts: "py_int (strip val) = Inr ts"
    using p by (cases "py_int (strip val)") (auto simp: parse_end_time_def py_int_def split: option.splits)
  then have "parse_int (strip val) = Some ts" by (auto simp: py_int_def split: option.splits)
  moreover have "last_second * 1000 < ts" using parse_end_time_small [OF ts _ p(2)] p(1) by force
  ultimately show ?thesis using Inl d parse_end_time_error [OF p(2)] p(1) by auto
qed simp

lemma to_microseconds:
  fixes y q m :: rat
  assumes "y \<le> q + m / 1000 + 1 / 2097152" "q + m / 1000 - 1 / 2097152 \<le> y"
  shows "(y - q) * 1000000 \<le> m * 1000 + 1000000 / 2097152" "m * 1000 - 1000000 / 2097152 \<le> (y - q) * 1000000"
proof -
  have "(y - q) * 1000000 \<le> (m / 1000 + 1 / 2097152) * 1000000" using assms(1) by (intro mult_right_mono) simp_all
  then show "(y - q) * 1000000 \<le> m * 1000 + 1000000 / 2097152" by (simp add: distrib_right)
  have "(m / 1000 - 1 / 2097152) * 1000000 \<le> (y - q) * 1000000" using assms(2) by (intro mult_right_mono) simp_all
  then show "m * 1000 - 1000000 / 2097152 \<le> (y - q) * 1000000" by (simp add: left_diff_distrib)
qed

lemma exact_time:
  assumes "0 \<le> ts" "ts < 2 ^ 33 * 1000"
  shows "split_seconds (fl (of_int ts / 1000)) = (ts div 1000, ts mod 1000 * 1000)"
proof -
  let ?q = "ts div 1000" and ?m = "ts mod 1000" and ?y = "fl (of_int ts / 1000)"
  have x: "(of_int ts / 1000 :: rat) = of_int ?q + of_int ?m / 1000"
  proof -
    have "(of_int ts :: rat) = of_int (?q * 1000 + ?m)" by simp
    then show ?thesis by (simp only: of_int_add of_int_mult) simp
  qed
  have q: "0 \<le> ?q" "?q < 2 ^ 33" using assms by simp_all
  show ?thesis
  proof (cases "?m = 0")
    case True
    have "fl (of_int ?q) = of_int ?q" using q by (intro fl_of_int) simp
    then have "?y = of_int ?q" using x True by simp
    then show ?thesis using True by (simp add: split_seconds_def)
  next
    case False
    then have "1 \<le> ?m" "?m \<le> 999" using pos_mod_bound [of 1000 ts] pos_mod_sign [of 1000 ts] by linarith+
    then have m: "(1 :: rat) \<le> of_int ?m" "of_int ?m \<le> (999 :: rat)" by (simp_all only: of_int_1_le_iff of_int_le_numeral_iff)
    have "(of_int ts :: rat) < of_int (2 ^ 33 * 1000)" using assms(2) by (simp only: of_int_less_iff)
    then have "(of_int ts / 1000 :: rat) < pow2 33" by (simp add: pow2_nat)
    then have e: "\<bar>?y - of_int ts / 1000\<bar> \<le> 1 / 2 ^ 21"
      using fl_error [of "of_int ts / 1000" "-20"] assms(1) by (simp add: pow2_def)
    then have e': "?y \<le> of_int ?q + of_int ?m / 1000 + 1 / 2097152" "of_int ?q + of_int ?m / 1000 - 1 / 2097152 \<le> ?y"
      unfolding x abs_le_iff by (simp_all add: algebra_simps)
    have fl: "\<lfloor>?y\<rfloor> = ?q" by (rule floor_unique) (use e' m in linarith)+
    let ?f = "(?y - of_int ?q) * 1000000"
    have mm: "of_int (?m * 1000) = (of_int ?m * 1000 :: rat)" by simp
    have f: "?f \<le> of_int (?m * 1000) + 1000000 / 2097152" "of_int (?m * 1000) - 1000000 / 2097152 \<le> ?f"
      unfolding mm using to_microseconds [OF e'] by simp_all
    have m': "of_int (?m * 1000) \<le> (999000 :: rat)" "(1000 :: rat) \<le> of_int (?m * 1000)" using m by simp_all
    have "(1048576 :: rat) = pow2 20" by (simp add: pow2_nat)
    then have "0 \<le> ?f" "?f < pow2 20" using f m' by linarith+
    then have "\<bar>fl ?f - ?f\<bar> \<le> 1 / 2 ^ 34" using fl_error [of ?f "-33"] by (simp add: pow2_def)
    then have "\<bar>fl ?f - ?f\<bar> \<le> 1 / 1000" by (rule order_trans) simp
    then have "\<bar>fl ?f - of_int (?m * 1000)\<bar> < 1 / 2" using f unfolding abs_le_iff abs_less_iff by linarith
    then have "round_half_even (fl ?f) = ?m * 1000" by (rule rhe_near)
    then show ?thesis using fl \<open>?m \<le> 999\<close> by (simp add: split_seconds_def)
  qed
qed

lemma nat_digits_length: "n < 10 ^ k \<Longrightarrow> 0 < k \<Longrightarrow> length (nat_digits n) \<le> k"
proof (induction n arbitrary: k rule: nat_digits.induct)
  case (1 n)
  show ?case
  proof (cases "n < 10")
    case False
    then obtain j where j: "k = Suc j" "0 < j" using 1(2,3) by (cases k; cases "k - 1") auto
    have "n div 10 < 10 ^ j" using 1(2) j by (simp add: less_mult_imp_div_less mult.commute)
    then show ?thesis using 1(1) [OF False _ j(2)] j False by (simp add: nat_digits.simps [of n])
  qed (use 1 in \<open>simp add: nat_digits.simps [of n]\<close>)
qed

lemma end_time_text:
  assumes "0 \<le> ts" "ts < 2 ^ 33 * 1000"
  shows "parse_end_time (str_int ts) = Inr (ts, ts div 1000, ts mod 1000 * 1000)"
proof -
  have "nat \<bar>ts\<bar> < 10 ^ 14" using assms by simp
  then have "length (nat_digits (nat \<bar>ts\<bar>)) \<le> 14" by (rule nat_digits_length) simp
  then have "py_int (str_int ts) = Inr ts" by (simp add: py_int_def parse_int_str_int int_max_str_digits_def)
  moreover have "strip (str_int ts) = str_int ts"
    using str_int_hd str_int_last digit_not_space by (intro strip_no_space) simp_all
  moreover have "int_truediv ts 1000 = Inr (Fin (fl (of_int ts / 1000)))" "fl (of_int ts / 1000) \<le> of_int (2 ^ 33)"
    using assms fl_of_int [of "2 ^ 33"] truediv_below [of ts "2 ^ 33"] by simp_all
  moreover have "\<not> time_t_limit \<le> fl (of_int ts / 1000)"
    using calculation(4) by (simp add: time_t_limit_def)
  moreover have "ts div 1000 < datetime_limit" "ts div 1000 < gmtime_limit"
    using assms by (simp_all add: datetime_limit_def gmtime_limit_def)
  ultimately show ?thesis
    using assms exact_time [OF assms] by (simp add: parse_end_time_def fromtimestamp_def)
qed

lemma end_time_event:
  "process_container_event (''entrypoint_end_time_ms:'' @ str_int ts) w =
     handle_entrypoint_end_time_ms (str_int ts)
       (w\<lparr>w_trace := w_trace w @ [Log INFO (''Container event data: entrypoint_end_time_ms:'' @ str_int ts)]\<rparr>)"
proof -
  let ?d = "''entrypoint_end_time_ms:'' @ str_int ts"
  have "list_all (\<lambda>c. (of_char c :: nat) < 128) ?d"
    using str_int_chars [of _ ts] by (fastforce simp: list_all_iff is_digit_def)
  then have "decode_replace ?d = ?d" by (intro decode_replace_id utf8_valid_ascii)
  moreover have "strip ?d = ?d"
    using str_int_last [of ts] digit_not_space by (intro strip_no_space) (simp_all add: is_space_def)
  moreover have "split_first CHR '':'' ?d = (''entrypoint_end_time_ms'', str_int ts)"
    using split_first_append [of "CHR '':''" "''entrypoint_end_time_ms''" "str_int ts"] by simp
  ultimately show ?thesis
    by (simp add: process_container_event_def bindM_run del: decode_replace.simps)
qed

text \<open>
  C33. A well-formed event is reported exactly: for every end time before the year 2242, the listener
  logs the time to the millisecond and the latency since \<^verbatim>\<open>DEVKIT_START_TIME_MS\<close>; the float division
  of \<^verbatim>\<open>fromtimestamp(ts_end / 1000)\<close> loses nothing.
\<close>

theorem entrypoint_event_reported:
  assumes "0 \<le> ts" "ts < 2 ^ 33 * 1000"
    and "map_of (w_env w) ''DEVKIT_START_TIME_MS'' = Some (str_int start)"
    and "length (nat_digits (nat \<bar>start\<bar>)) \<le> int_max_str_digits"
  shows "process_container_event (''entrypoint_end_time_ms:'' @ str_int ts) w =
    (Inr (), w\<lparr>w_trace := w_trace w @
      [Log INFO (''Container event data: entrypoint_end_time_ms:'' @ str_int ts),
       Log INFO (''Successfully parsed entrypoint end time: '' @ isoformat (ts div 1000, ts mod 1000 * 1000)),
       Log INFO (''Calculated latency until entrypoint end: '' @ str_int (ts - start) @ '' ms'')]\<rparr>)"
proof -
  obtain c s where c: "str_int start = c # s" by (cases "str_int start") simp_all
  moreover have "py_int (str_int start) = Inr start" using assms(4) by (simp add: py_int_def parse_int_str_int)
  ultimately show ?thesis
    using assms(3) end_time_text [OF assms(1,2)]
    by (simp add: end_time_event [unfolded append.simps] handle_entrypoint_end_time_ms_def report_latency_def bindM_run
        catchM_def)
qed

theorem entrypoint_event_reported_witness:
  "\<exists>w. process_container_event (''entrypoint_end_time_ms:'' @ str_int 1700000000123)
      \<lparr>w_fs = Dir [], w_cwd = [], w_env = [(''DEVKIT_START_TIME_MS'', str_int 1700000000100)], w_trace = [],
       w_exec = (\<lambda>_ fs _. (NoProgram, fs)), w_order = (\<lambda>xs. xs)\<rparr> = (Inr (), w) \<and>
    last (w_trace w) = Log INFO (''Calculated latency until entrypoint end: '' @ str_int 23 @ '' ms'')"
proof -
  have "length (nat_digits 1700000000100) \<le> 4300" using nat_digits_length [of 1700000000100 13] by simp
  then show ?thesis
    using entrypoint_event_reported [of 1700000000123 _ 1700000000100] by (simp add: int_max_str_digits_def)
qed

text \<open>A number beyond the clock's range: the error is not caught, and the listener ends.\<close>

lemma huge_timestamp_escapes:
  "fst (process_container_event (''entrypoint_end_time_ms:'' @ str_int (2 ^ 67 * 1000)) w) =
     Inl (OverflowError ''timestamp out of range for platform time_t'')"
proof -
  let ?ts = "2 ^ 67 * 1000 :: int"
  have "length (nat_digits (nat \<bar>?ts\<bar>)) \<le> 24" by (rule nat_digits_length) simp_all
  then have "py_int (str_int ?ts) = Inr ?ts" by (simp add: py_int_def parse_int_str_int int_max_str_digits_def)
  moreover have "strip (str_int ?ts) = str_int ?ts"
    using str_int_hd str_int_last digit_not_space by (intro strip_no_space) simp_all
  moreover have x: "fl (of_int (2 ^ 67)) = of_int (2 ^ 67)"
    using fl_representable [of 1 67] by (simp add: fl_def pow2_nat)
  moreover have "int_truediv ?ts 1000 = Inr (Fin (2 ^ 67))"
    using truediv_below(1) [of ?ts "2 ^ 67", OF _ _ x] x by simp
  ultimately have "parse_end_time (str_int ?ts) = Inl (OverflowError ''timestamp out of range for platform time_t'')"
    by (simp add: parse_end_time_def fromtimestamp_def time_t_limit_def)
  then show ?thesis
    unfolding end_time_event by (simp add: handle_entrypoint_end_time_ms_def bindM_run catchM_def)
qed

lemma huge_timestamp_ends_listener:
  "s_pc (received (''entrypoint_end_time_ms:'' @ str_int (2 ^ 67 * 1000)) st) = Finished"
  using huge_timestamp_escapes
  by (simp add: received_def Let_def leave_loop_def finish_def split: prod.splits sum.splits) (metis fst_conv sum.distinct(1))

section \<open>The listener and its cancellation\<close>

definition error_logged :: "server \<Rightarrow> bool" where
  "error_logged st = (\<exists>m. Log ERROR m \<in> set (w_trace (s_world st)))"

definition server_inv :: "server \<Rightarrow> bool" where
  "server_inv st =
     ((closed st \<longleftrightarrow> s_pc st = Finished) \<and>
      (shut_down st \<or> cancelling st \<longrightarrow> event_set st) \<and>
      (s_pc st \<in> {Check, Accepting, Receiving} \<longrightarrow> listening st) \<and>
      (s_pc st = Accepting \<and> event_set st \<longrightarrow> cancelling st \<or> shut_down st) \<and>
      (s_pc st = Finished \<longrightarrow> event_set st \<or> error_logged st))"

lemma log_server_simps [simp]:
  "s_port (log_server l m st) = s_port st" "event_set (log_server l m st) = event_set st"
  "cancelling (log_server l m st) = cancelling st" "listening (log_server l m st) = listening st"
  "shut_down (log_server l m st) = shut_down st" "closed (log_server l m st) = closed st"
  "s_pc (log_server l m st) = s_pc st" "error_logged (log_server ERROR m st)"
  by (auto simp: log_server_def error_logged_def)

lemma leave_loop_inv: "server_inv st \<Longrightarrow> server_inv (leave_loop e (st\<lparr>s_world := w\<rparr>))"
  by (auto simp: server_inv_def leave_loop_def finish_def error_logged_def log_server_def)

lemma turn_inv:
  assumes "server_inv st" "listener_turn answer st = Some st'"
  shows "server_inv st'"
proof (cases "s_pc st")
  case Begin
  then show ?thesis
    using assms by (auto simp: listener_turn_def begin_listening_def server_inv_def finish_def error_logged_def log_server_def
        split: net.splits)
next
  case Check
  then show ?thesis
    using assms by (cases "event_set st") (auto simp: listener_turn_def server_inv_def finish_def split: net.splits)
next
  case Accepting
  then show ?thesis
    using assms leave_loop_inv [OF assms(1), of _ "s_world st"]
    by (auto simp: listener_turn_def server_inv_def split: net.splits if_splits)
next
  case Receiving
  have "server_inv (received d st)" for d
    using assms(1) Receiving leave_loop_inv [of "log_server INFO ''Received event from container'' st"]
    by (auto simp: received_def Let_def server_inv_def split: prod.splits sum.splits)
  then show ?thesis
    using assms Receiving leave_loop_inv [OF assms(1), of _ "s_world st"]
    by (auto simp: listener_turn_def split: net.splits)
next
  case Finished
  then show ?thesis using assms by (auto simp: listener_turn_def)
qed

lemma step_inv: "step st st' \<Longrightarrow> server_inv st \<Longrightarrow> server_inv st'"
proof (induction rule: step.induct)
  case (turn answer st st')
  then show ?case using turn_inv [OF turn(2,1)] by simp
next
  case (set_first st)
  then show ?case by (auto simp: server_inv_def set_event_def error_logged_def)
next
  case (set_second st)
  then show ?case by (auto simp: server_inv_def shutdown_socket_def error_logged_def)
qed

lemma reachable_inv: "step\<^sup>*\<^sup>* (new_server port w) st \<Longrightarrow> server_inv st"
proof (induction rule: rtranclp_induct)
  case base
  then show ?case by (simp add: server_inv_def new_server_def)
next
  case (step st st')
  then show ?case using step_inv by blast
qed

text \<open>
  C34. In every state that the listener and \<^verbatim>\<open>SocketCancelEvent.set\<close> can reach together, the socket is
  closed exactly when the thread is at its end; the thread never ends silently, but only when the
  event is set or an error has been logged; and once \<^verbatim>\<open>set\<close> has returned, the thread cannot be left
  waiting in \<^verbatim>\<open>accept\<close> on a socket that is still open, whatever the interleaving was.
\<close>

theorem listener_invariant:
  assumes "step\<^sup>*\<^sup>* (new_server port w) st"
  shows "(closed st \<longleftrightarrow> s_pc st = Finished) \<and>
    (s_pc st = Finished \<longrightarrow> event_set st \<or> error_logged st) \<and>
    (event_set st \<and> \<not> cancelling st \<and> s_pc st = Accepting \<longrightarrow> shut_down st)"
  using reachable_inv [OF assms] by (auto simp: server_inv_def)

definition sample_server :: server where
  "sample_server = new_server 4711
     \<lparr>w_fs = Dir [], w_cwd = [], w_env = [], w_trace = [], w_exec = (\<lambda>_ fs _. (NoProgram, fs)), w_order = (\<lambda>xs. xs)\<rparr>"

definition waiting_server :: server where
  "waiting_server = (begin_listening sample_server)\<lparr>s_pc := Accepting\<rparr>"

lemma waiting_reachable: "step\<^sup>*\<^sup>* sample_server waiting_server"
proof -
  have "step sample_server (begin_listening sample_server)"
    by (rule turn [of ListenOk]) (simp add: listener_turn_def sample_server_def new_server_def)
  moreover have "step (begin_listening sample_server) waiting_server"
    by (rule turn [of NoWait])
      (simp add: listener_turn_def waiting_server_def begin_listening_def sample_server_def new_server_def)
  ultimately show ?thesis by simp
qed

lemma cancelled_reachable: "step\<^sup>*\<^sup>* sample_server (shutdown_socket (set_event waiting_server))"
proof -
  have "step waiting_server (set_event waiting_server)"
    by (rule set_first) (simp add: waiting_server_def begin_listening_def sample_server_def new_server_def)
  moreover have "step (set_event waiting_server) (shutdown_socket (set_event waiting_server))"
    by (rule set_second) (simp add: set_event_def)
  ultimately show ?thesis using waiting_reachable by (meson rtranclp.rtrancl_into_rtrancl)
qed

theorem listener_invariant_witness:
  "shut_down (shutdown_socket (set_event waiting_server)) \<and> s_pc (shutdown_socket (set_event waiting_server)) = Accepting"
  using listener_invariant [OF cancelled_reachable [unfolded sample_server_def]]
  by (simp add: shutdown_socket_def set_event_def waiting_server_def begin_listening_def)

text \<open>How many turns are left once the event is set and the socket is shut down.\<close>

definition turns_left :: "server \<Rightarrow> nat" where
  "turns_left st = (case s_pc st of Begin \<Rightarrow> 2 | Check \<Rightarrow> 1 | Accepting \<Rightarrow> 1 | Receiving \<Rightarrow> 2 | Finished \<Rightarrow> 0)"

definition thread_turn :: "server \<Rightarrow> server \<Rightarrow> bool" where
  "thread_turn st st' = (\<exists>answer. listener_turn answer st = Some st')"

definition cancelled :: "server \<Rightarrow> bool" where
  "cancelled st = (server_inv st \<and> event_set st \<and> \<not> cancelling st)"

lemma leave_loop_simps [simp]:
  "s_pc (leave_loop e st) = Finished" "event_set (leave_loop e st) = event_set st" "cancelling (leave_loop e st) = cancelling st"
  by (simp_all add: leave_loop_def finish_def)

lemma turn_cancelled:
  assumes "cancelled st" "thread_turn st st'"
  shows "cancelled st' \<and> turns_left st' < turns_left st"
proof -
  obtain answer where t: "listener_turn answer st = Some st'" using assms(2) by (auto simp: thread_turn_def)
  have inv: "server_inv st'" using turn_inv [OF _ t] assms(1) by (simp add: cancelled_def)
  have r: "event_set (received d st) = event_set st" "cancelling (received d st) = cancelling st"
    "turns_left (received d st) < 2" for d
    by (auto simp: received_def Let_def turns_left_def split: prod.splits sum.splits)
  have "event_set st' \<and> \<not> cancelling st' \<and> turns_left st' < turns_left st"
  proof (cases "s_pc st = Receiving")
    case True
    then have "turns_left st = 2" by (simp add: turns_left_def)
    then show ?thesis
      using assms(1) t r True by (cases answer) (auto simp: cancelled_def listener_turn_def turns_left_def [of "leave_loop _ st"])
  next
    case False
    then show ?thesis
      using assms(1) t
      by (cases "s_pc st"; cases answer)
        (auto simp: cancelled_def server_inv_def listener_turn_def turns_left_def finish_def begin_listening_def)
  qed
  then show ?thesis using inv by (simp add: cancelled_def)
qed

lemma turns_bounded: "(thread_turn ^^ n) st st' \<Longrightarrow> cancelled st \<Longrightarrow> cancelled st' \<and> n + turns_left st' \<le> turns_left st"
proof (induction n arbitrary: st')
  case (Suc n)
  then obtain st1 where s: "(thread_turn ^^ n) st st1" "thread_turn st1 st'" by auto
  then show ?case using Suc.IH [OF s(1) Suc.prems(2)] turn_cancelled [of st1 st'] by auto
qed simp

text \<open>
  C35. Cancellation ends the listener: once \<^verbatim>\<open>set\<close> has returned, the thread takes at most two more turns,
  whatever the network answers, and as long as it is not at its end it can always take one, without
  waiting for a new connection; the one thing it may still wait for is a client that has connected
  and neither sends nor closes.
\<close>

theorem cancellation_ends_listener:
  assumes "step\<^sup>*\<^sup>* (new_server port w) st" "event_set st" "\<not> cancelling st"
  shows "((thread_turn ^^ n) st st' \<longrightarrow> n \<le> 2) \<and>
    ((thread_turn ^^ n) st st' \<longrightarrow> s_pc st' = Finished \<or> s_pc st' = Receiving \<or>
       (\<exists>answer. answer \<noteq> Conn \<and> (s_pc st' = Accepting \<longrightarrow> shut_down st') \<and> listener_turn answer st' \<noteq> None))"
proof -
  have c: "cancelled st" using reachable_inv [OF assms(1)] assms(2,3) by (simp add: cancelled_def)
  have "turns_left st \<le> 2" by (simp add: turns_left_def split: pc.splits)
  moreover have "s_pc st' = Finished \<or> s_pc st' = Receiving \<or>
       (\<exists>answer. answer \<noteq> Conn \<and> (s_pc st' = Accepting \<longrightarrow> shut_down st') \<and> listener_turn answer st' \<noteq> None)" if "cancelled st'"
  proof (cases "s_pc st'")
    case Begin
    then show ?thesis by (auto simp: listener_turn_def intro: exI [of _ ListenOk])
  next
    case Check
    then show ?thesis by (auto simp: listener_turn_def intro: exI [of _ NoWait])
  next
    case Accepting
    then show ?thesis
      using that by (auto simp: cancelled_def server_inv_def listener_turn_def intro: exI [of _ "AcceptError []"])
  qed simp_all
  ultimately show ?thesis using turns_bounded [of n st st'] c by auto
qed

theorem cancellation_ends_listener_witness:
  "(thread_turn ^^ 0) (shutdown_socket (set_event waiting_server)) (shutdown_socket (set_event waiting_server)) \<and>
   (\<exists>answer. answer \<noteq> Conn \<and> listener_turn answer (shutdown_socket (set_event waiting_server)) \<noteq> None)"
  using cancellation_ends_listener [OF cancelled_reachable [unfolded sample_server_def], of 0
      "shutdown_socket (set_event waiting_server)"]
  by (auto simp: shutdown_socket_def set_event_def waiting_server_def)

end
