(* ===== verification/PyShlex.thy ===== *)
theory PyShlex
  imports Prelude
begin

text \<open>
  Python's \<^verbatim>\<open>shlex.split\<close>, \<^verbatim>\<open>shlex.join\<close> and \<^verbatim>\<open>os.path.expandvars\<close>, which \<^verbatim>\<open>docker_run.py\<close> uses to read and
  to print command lines.  \<open>shlex_split_join\<close> is the law its clients use: splitting what \<^verbatim>\<open>join\<close> has printed
  gives the words back.
\<close>

section \<open>Splitting\<close>

text \<open>The states of the lexer: between words, in a word, in quotes, and after a backslash, outside or
  inside of quotes.\<close>

datatype lex = Blank | Word | InQuote char | InEscape "char option"

abbreviation squote :: char where "squote \<equiv> CHR 0x27"
abbreviation dquote :: char where "dquote \<equiv> CHR 0x22"
abbreviation backslash :: char where "backslash \<equiv> CHR 0x5C"

definition lex_space :: "char \<Rightarrow> bool" where
  "lex_space c = (c \<in> set [CHR '' '', CHR 0x09, CHR 0x0D, nl])"

fun shlex :: "lex \<Rightarrow> string \<Rightarrow> bool \<Rightarrow> string \<Rightarrow> exn + string list" where
  "shlex Blank tok was_quoted [] = Inr []"
| "shlex Blank tok was_quoted (c # s) =
     (if lex_space c then shlex Blank [] False s
      else if c = backslash then shlex (InEscape None) [] False s
      else if c = squote \<or> c = dquote then shlex (InQuote c) [] False s
      else shlex Word [c] False s)"
| "shlex Word tok was_quoted [] = Inr (if tok = [] \<and> \<not> was_quoted then [] else [tok])"
| "shlex Word tok was_quoted (c # s) =
     (if lex_space c then
        (if tok \<noteq> [] \<or> was_quoted then bindE (shlex Blank [] False s) (\<lambda>toks. Inr (tok # toks))
         else shlex Blank [] False s)
      else if c = squote \<or> c = dquote then shlex (InQuote c) tok was_quoted s
      else if c = backslash then shlex (InEscape None) tok was_quoted s
      else shlex Word (tok @ [c]) was_quoted s)"
| "shlex (InQuote k) tok was_quoted [] = Inl (ValueError ''No closing quotation'')"
| "shlex (InQuote k) tok was_quoted (c # s) =
     (if c = k then shlex Word tok True s
      else if c = backslash \<and> k = dquote then shlex (InEscape (Some k)) tok True s
      else shlex (InQuote k) (tok @ [c]) True s)"
| "shlex (InEscape e) tok was_quoted [] = Inl (ValueError ''No escaped character'')"
| "shlex (InEscape e) tok was_quoted (c # s) =
     (case e of
        None \<Rightarrow> shlex Word (tok @ [c]) was_quoted s
      | Some k \<Rightarrow> shlex (InQuote k) (tok @ (if c \<noteq> backslash \<and> c \<noteq> k then [backslash, c] else [c])) was_quoted s)"

definition shlex_split :: "string \<Rightarrow> exn + string list" where
  "shlex_split s = shlex Blank [] False s"

section \<open>Quoting\<close>

definition is_word_char :: "char \<Rightarrow> bool" where
  "is_word_char c = (c \<in> set ''abcdefghijklmnopqrstuvwxyzABCDEFGHIJKLMNOPQRSTUVWXYZ0123456789_'')"

definition shell_safe :: "char \<Rightarrow> bool" where
  "shell_safe c = (is_word_char c \<or> c \<in> set ''@%+=:,./-'')"

definition shlex_quote :: "string \<Rightarrow> string" where
  "shlex_quote s =
     (if s = [] then [squote, squote]
      else if list_all shell_safe s then s
      else [squote] @ replace [squote] [squote, dquote, squote, dquote, squote] s @ [squote])"

definition shlex_join :: "string list \<Rightarrow> string" where
  "shlex_join ss = join '' '' (map shlex_quote ss)"

section \<open>Environment variables\<close>

text \<open>A match of \<^verbatim>\<open>(\w+|\{[^}]*\})\<close> at the start: the name of the variable and the length of the match.\<close>

definition var_ref :: "string \<Rightarrow> (string \<times> nat) option" where
  "var_ref s =
     (let name = takeWhile is_word_char s
      in if name \<noteq> [] then Some (name, length name)
         else if s \<noteq> [] \<and> hd s = CHR ''{'' \<and> CHR ''}'' \<in> set s
         then (let inner = takeWhile (\<lambda>c. c \<noteq> CHR ''}'') (tl s) in Some (inner, length inner + 2))
         else None)"

lemma var_ref_pos: "var_ref s = Some (name, k) \<Longrightarrow> 0 < k"
  by (auto simp: var_ref_def Let_def split: if_splits)

function expandvars :: "string dict \<Rightarrow> string \<Rightarrow> string" where
  "expandvars env [] = []"
| "expandvars env (c # s) =
     (if c \<noteq> CHR ''$'' then c # expandvars env s
      else (case var_ref s of
          None \<Rightarrow> c # expandvars env s
        | Some (name, k) \<Rightarrow>
            (case map_of env name of Some v \<Rightarrow> v | None \<Rightarrow> c # take k s) @ expandvars env (drop k s)))"
  by pat_completeness auto
termination
  by (relation "measure (length \<circ> snd)") auto

section \<open>Splitting what has been joined\<close>

lemma replace_single: "replace [a] new s = concat (map (\<lambda>c. if c = a then new else [c]) s)"
proof (induction s)
  case (Cons c s)
  then show ?case by (auto simp: replace.simps [of _ _ "c # s"])
qed simp

lemma shell_safe_plain: "shell_safe c \<Longrightarrow> \<not> lex_space c \<and> c \<noteq> squote \<and> c \<noteq> dquote \<and> c \<noteq> backslash"
  by (auto simp: shell_safe_def is_word_char_def lex_space_def)

lemma shlex_safe:
  "list_all shell_safe s \<Longrightarrow> shlex Word tok q (s @ rest) = shlex Word (tok @ s) q rest"
  by (induction s arbitrary: tok) (auto dest: shell_safe_plain)

lemma shlex_quoted:
  "shlex (InQuote squote) tok q
     (replace [squote] [squote, dquote, squote, dquote, squote] s @ squote # rest) = shlex Word (tok @ s) True rest"
proof (induction s arbitrary: tok q)
  case (Cons c s)
  then show ?case by (cases "c = squote") (simp_all add: replace_single lex_space_def)
qed simp

lemma shlex_quote_word:
  "\<exists>q. shlex Blank [] False (shlex_quote s @ rest) = shlex Word s q rest \<and> (s \<noteq> [] \<or> q)"
proof -
  consider "s = []" | "s \<noteq> []" "list_all shell_safe s" | "s \<noteq> []" "\<not> list_all shell_safe s" by blast
  then show ?thesis
  proof cases
    case 1
    then show ?thesis by (intro exI [of _ True]) (simp add: shlex_quote_def lex_space_def)
  next
    case 2
    then obtain c t where s: "s = c # t" by (cases s) auto
    then have "shlex Blank [] False (s @ rest) = shlex Word s False rest"
      using 2 shlex_safe [of t "[c]" False rest] shell_safe_plain [of c] by simp
    then show ?thesis using 2 by (intro exI [of _ False]) (simp add: shlex_quote_def)
  next
    case 3
    have "shlex Blank [] False (squote # replace [squote] [squote, dquote, squote, dquote, squote] s @ squote # rest) =
      shlex Word s True rest"
      using shlex_quoted [of "[]" False s rest] by (simp add: lex_space_def)
    then show ?thesis using 3 by (intro exI [of _ True]) (simp add: shlex_quote_def)
  qed
qed

lemma shlex_split_join: "shlex_split (shlex_join ss) = Inr ss"
proof (induction "'' ''" "map shlex_quote ss" arbitrary: ss rule: join.induct)
  case 1
  then show ?case by (simp add: shlex_split_def shlex_join_def)
next
  case (2 x)
  then obtain s where ss: "ss = [s]" by auto
  obtain q where "shlex Blank [] False (shlex_quote s @ []) = shlex Word s q []" "s \<noteq> [] \<or> q"
    using shlex_quote_word by blast
  then show ?case by (auto simp: ss shlex_split_def shlex_join_def)
next
  case (3 x y zs)
  then obtain s ss' where ss: "ss = s # ss'" "map shlex_quote ss' = y # zs" by (cases ss) auto
  have IH: "shlex Blank [] False (join '' '' (y # zs)) = Inr ss'"
    using 3(1) [of ss'] ss by (simp add: shlex_split_def shlex_join_def)
  obtain q where q: "shlex Blank [] False (shlex_quote s @ '' '' @ join '' '' (y # zs)) = shlex Word s q ('' '' @ join '' '' (y # zs))"
    "s \<noteq> [] \<or> q" using shlex_quote_word by blast
  have "lex_space CHR '' ''" by (simp add: lex_space_def)
  then have "shlex Word s q ('' '' @ join '' '' (y # zs)) = Inr (s # ss')" using IH q(2) by simp
  then show ?case using q(1) ss by (simp add: shlex_split_def shlex_join_def)
qed

text \<open>A string without a dollar sign is not changed.\<close>

lemma expandvars_plain: "CHR ''$'' \<notin> set s \<Longrightarrow> expandvars env s = s"
  by (induction s) auto

end
