(* ===== verification/DockerRun.thy ===== *)
theory DockerRun
  imports DockerCleanup ListExternalMounts FindProjectRoot ContainerEvents PyShlex
begin

text \<open>
  \<^verbatim>\<open>src/.devkit/scripts/docker_run.py\<close>: assembles the command that runs a container with the mounts and the
  environment of the project, and runs it beside the cleanup thread and the event listener.

  What the process learns from the operating system (users, groups, terminals, limits, host name,
  the port of the event socket, the place of the script) is the record \<open>host\<close>; the user database
  is taken to know the home directory of the user.  \<^verbatim>\<open>main\<close> is cut into its
  phases, in the order of the code; \<open>docker_run_main\<close> composes them.  The two threads are started and
  cancelled here; what they do is in the theories \<^verbatim>\<open>DockerCleanup\<close> and \<^verbatim>\<open>ContainerEvents\<close>.
\<close>

section \<open>The host\<close>

record host =
  h_script :: path
  h_uid :: int
  h_gid :: int
  h_pw_name :: "exn + string"
  h_gr_name :: "exn + string"
  h_pw_dir :: string
  h_groups :: "int dict"
  h_stdin_tty :: bool
  h_stdout_tty :: bool
  h_nofile :: "int \<times> int"
  h_hostname :: string
  h_bound :: "exn + int"

definition getenv :: "string \<Rightarrow> string option io" where
  "getenv name = getM (\<lambda>w. map_of (w_env w) name)"

text \<open>\<^verbatim>\<open>os.environ.get(name)\<close> where an empty value counts as none.\<close>

definition getenv_set :: "string \<Rightarrow> string option io" where
  "getenv_set name = bindM (getenv name) (\<lambda>v. retM (if v = Some [] then None else v))"

text \<open>\<^verbatim>\<open>Path.home()\<close>\<close>

definition path_home :: "host \<Rightarrow> path io" where
  "path_home h =
     bindM (getenv ''HOME'') (\<lambda>v.
       let dir = rev (dropWhile (\<lambda>c. c = CHR ''/'') (rev (case v of Some d \<Rightarrow> d | None \<Rightarrow> h_pw_dir h)))
       in retM (path_of (if dir = [] then ''/'' else dir)))"

section \<open>Directories\<close>

definition path_from_env :: "string \<Rightarrow> path \<Rightarrow> path io" where
  "path_from_env env_var default_path =
     bindM (getenv_set env_var) (\<lambda>v. retM (case v of Some s \<Rightarrow> path_of s | None \<Rightarrow> default_path))"

record dirs =
  host_project_root :: path
  container_project_root :: path
  command_project_root :: path
  host_home :: path
  command_home :: path
  container_home :: path
  host_tmp_dir :: path
  container_tmp_dir :: path

definition find_host_root :: "path io" where
  "find_host_root =
     catchM
       (bindM find_project_root (\<lambda>found.
        bindM (path_from_env ''DEVKIT_HOST_PROJECT_ROOT'' found) (\<lambda>p.
        bindM (log_info (''Host project root: '' @ str_path p)) (\<lambda>_. retM p))))
       is_file_not_found
       (\<lambda>e. bindM (print_err (''Error: '' @ exn_str e)) (\<lambda>_. sys_exit 1))"

definition find_dirs :: "host \<Rightarrow> dirs io" where
  "find_dirs h =
     bindM find_host_root (\<lambda>host_root.
     bindM (path_from_env ''DEVKIT_CONTAINER_PROJECT_ROOT'' host_root) (\<lambda>container_root.
     bindM (path_from_env ''DEVKIT_COMMAND_PROJECT_ROOT'' host_root) (\<lambda>command_root.
     bindM (log_info (''Container project root: '' @ str_path container_root)) (\<lambda>_.
     bindM (log_info (''Command project root: '' @ str_path command_root)) (\<lambda>_.
     bindM (path_home h) (\<lambda>home.
     bindM (path_from_env ''DEVKIT_HOST_HOME'' home) (\<lambda>h_home.
     bindM (path_from_env ''DEVKIT_COMMAND_HOME'' h_home) (\<lambda>cmd_home.
     bindM (path_from_env ''DEVKIT_CONTAINER_HOME'' h_home) (\<lambda>cont_home.
     bindM (getenv ''TMPDIR'') (\<lambda>tmp.
     bindM (path_from_env ''DEVKIT_HOST_TMP_DIR'' (path_of (case tmp of Some s \<Rightarrow> s | None \<Rightarrow> ''/tmp''))) (\<lambda>h_tmp.
     bindM (path_from_env ''DEVKIT_CONTAINER_TMP_DIR'' h_tmp) (\<lambda>c_tmp.
       retM \<lparr>host_project_root = host_root, container_project_root = container_root, command_project_root = command_root,
             host_home = h_home, command_home = cmd_home, container_home = cont_home,
             host_tmp_dir = h_tmp, container_tmp_dir = c_tmp\<rparr>))))))))))))"

section \<open>Users and mounts\<close>

definition home_files :: "path list" where
  "home_files = [path_of ''.gitconfig'']"

definition home_dirs :: "path list" where
  "home_dirs = map path_of
     [''.cache/bazel'', ''.cache/bazelisk'', ''.cache/buf'', ''.cache/go-build'', ''.cache/nvim'', ''.cache/pip'',
      ''.cache/pip-tools'', ''.cache/pre-commit'', ''.cache/pylint'', ''.config/gcloud'', ''.config/google-chrome'',
      ''.config/matplotlib'', ''.devkit/logs'', ''.docker'', ''.gemini'', ''.local/pre-commit'', ''.local/share/nvim'',
      ''.local/state'', ''.npm'', ''.vim'']"

definition docker_sock :: path where "docker_sock = path_of ''/var/run/docker.sock''"
definition system_bus_socket :: path where "system_bus_socket = path_of ''/run/dbus/system_bus_socket''"
definition etc_gitconfig :: path where "etc_gitconfig = path_of ''/etc/gitconfig''"

definition session_bus_socket :: "int \<Rightarrow> path" where
  "session_bus_socket user_id = child (child (path_of ''/run/user'') (str_int user_id)) ''bus''"

record user =
  user_name :: string
  user_id :: int
  group_name :: string
  group_id :: int

definition env_or :: "string \<Rightarrow> exn + string \<Rightarrow> string io" where
  "env_or name fallback =
     bindM (getenv_set name) (\<lambda>v. case v of Some s \<Rightarrow> retM s | None \<Rightarrow> liftM fallback)"

definition env_int_or :: "string \<Rightarrow> int \<Rightarrow> int io" where
  "env_int_or name fallback =
     bindM (getenv_set name) (\<lambda>v. case v of Some s \<Rightarrow> liftM (py_int s) | None \<Rightarrow> retM fallback)"

definition find_user :: "host \<Rightarrow> user io" where
  "find_user h =
     bindM (env_or ''USER'' (h_pw_name h)) (\<lambda>un.
     bindM (env_int_or ''USER_ID'' (h_uid h)) (\<lambda>ui.
     bindM (env_or ''GROUP'' (h_gr_name h)) (\<lambda>gn.
     bindM (env_int_or ''GROUP_ID'' (h_gid h)) (\<lambda>gi.
       retM \<lparr>user_name = un, user_id = ui, group_name = gn, group_id = gi\<rparr>))))"

definition make_home_dir :: "path \<Rightarrow> path \<Rightarrow> path io" where
  "make_home_dir cmd_home rel_path =
     (let dir_path = joinpath cmd_home rel_path in bindM (path_mkdir dir_path) (\<lambda>_. retM dir_path))"

definition make_home_file :: "path \<Rightarrow> path \<Rightarrow> path io" where
  "make_home_file cmd_home rel_path =
     (let p = joinpath cmd_home rel_path
      in bindM (path_mkdir (parent p)) (\<lambda>_. bindM (path_touch p) (\<lambda>_. retM p)))"

text \<open>The mounts before the discovery of the git directory, with the user they depend on.\<close>

definition requested_mounts :: "host \<Rightarrow> path \<Rightarrow> (user \<times> path list) io" where
  "requested_mounts h cmd_home =
     bindM (path_exists etc_gitconfig) (\<lambda>ex.
     bindM (find_user h) (\<lambda>u.
     bindM (mapM (make_home_dir cmd_home) home_dirs) (\<lambda>dir_mounts.
     bindM (mapM (make_home_file cmd_home) home_files) (\<lambda>file_mounts.
       retM (u, [docker_sock, system_bus_socket] @ (if ex then [etc_gitconfig] else []) @
                [session_bus_socket (user_id u)] @ dir_mounts @ file_mounts)))))"

text \<open>An out-of-tree git directory: the mount and the variable it needs.\<close>

definition git_mounts :: "(path list \<times> string list) io" where
  "git_mounts =
     catchM
       (bindM (run_proc [''git'', ''rev-parse'', ''--is-inside-work-tree'']) (\<lambda>(rc, out, _).
        if rc = 0 \<and> strip out = ''true'' then
          bindM (run_checked True [''git'', ''rev-parse'', ''--absolute-git-dir'']) (\<lambda>(dir, _).
          bindM (getM cwd_path) (\<lambda>cwd.
          let git_dir = path_of (strip dir)
          in if \<not> is_relative_to git_dir cwd then
               bindM (log_info (''Adding out-of-tree git directory to mounts: '' @ str_path git_dir)) (\<lambda>_.
                 retM ([git_dir], [''--env=GIT_DISCOVERY_ACROSS_FILESYSTEM=1'']))
             else retM ([], [])))
        else retM ([], [])))
       (\<lambda>e. is_called_process_error e \<or> is_file_not_found e)
       (\<lambda>e. bindM (log_info (''Git discovery failed or not in a git repo: '' @ exn_str e)) (\<lambda>_. retM ([], [])))"

definition context_env :: "string list io" where
  "context_env =
     getM (\<lambda>w. map (\<lambda>key. ''--env='' @ key) (filter (\<lambda>key. startswith key ''CLOUDSDK_CONTEXT_'') (dict_keys (w_env w))))"

definition group_gid :: "host \<Rightarrow> string \<Rightarrow> int io" where
  "group_gid h name =
     (case map_of (h_groups h) name of
        Some gid \<Rightarrow> retM gid
      | None \<Rightarrow> bindM (log_info (''Group '' @ name @ '' not found, defaulting GID to 0'')) (\<lambda>_. retM 0))"

section \<open>Arguments of docker run\<close>

definition tty_args :: "host \<Rightarrow> string list" where
  "tty_args h =
     (if h_stdin_tty h \<and> h_stdout_tty h then [''--interactive'', ''--tty'']
      else if \<not> h_stdin_tty h then [''--interactive''] else [])"

text \<open>\<^verbatim>\<open>data.get(key, default)\<close> and \<^verbatim>\<open>list.extend(v)\<close> for values from a JSON file.\<close>

definition json_dict_get :: "string \<Rightarrow> json \<Rightarrow> json \<Rightarrow> exn + json" where
  "json_dict_get key d v =
     (case v of
        JObj kvs \<Rightarrow> Inr (case map_of kvs key of Some x \<Rightarrow> x | None \<Rightarrow> d)
      | _ \<Rightarrow> Inl (AttributeError (quoted (type_name v) @ '' object has no attribute '' @ quoted ''get'')))"

fun json_iter :: "json \<Rightarrow> exn + json list" where
  "json_iter (JList xs) = Inr xs"
| "json_iter (JStr s) = Inr (map JStr (chars s))"
| "json_iter (JObj kvs) = Inr (map JStr (dict_keys kvs))"
| "json_iter v = Inl (TypeError (quoted (type_name v) @ '' object is not iterable''))"

definition read_run_args :: "path \<Rightarrow> json list io" where
  "read_run_args p =
     bindM (json_load p) (\<lambda>data.
     bindM (liftM (json_dict_get ''docker'' (JObj []) data)) (\<lambda>docker.
     bindM (liftM (json_dict_get ''run'' (JList []) docker)) (\<lambda>run_args.
     if truthy run_args then
       bindM (log_info (''Loaded docker run args from devkit.json: '' @ json_str run_args)) (\<lambda>_.
         liftM (json_iter run_args))
     else retM [])))"

definition config_run_args :: "path \<Rightarrow> json list io" where
  "config_run_args devkit_json_path =
     catchM
       (bindM (path_exists devkit_json_path) (\<lambda>ex. if ex then read_run_args devkit_json_path else retM []))
       is_exception
       (\<lambda>e. bindM (log_warning (''Failed to parse devkit.json: '' @ exn_str e)) (\<lambda>_. retM []))"

definition env_run_args :: "string list io" where
  "env_run_args =
     bindM (getenv_set ''DEVKIT_DOCKER_RUN_ARGS'') (\<lambda>v.
       case v of
         None \<Rightarrow> retM []
       | Some s \<Rightarrow>
           bindM (liftM (shlex_split s)) (\<lambda>env_args.
           bindM (log_info (''Adding args from DEVKIT_DOCKER_RUN_ARGS: '' @ json_repr (JList (map JStr env_args)))) (\<lambda>_.
             retM env_args)))"

definition expand_arg :: "string dict \<Rightarrow> json \<Rightarrow> exn + string" where
  "expand_arg env v =
     (case v of
        JStr s \<Rightarrow> Inr (expandvars env s)
      | _ \<Rightarrow> Inl (TypeError (''expected str, bytes or os.PathLike object, not '' @ type_name v)))"

definition run_args :: "host \<Rightarrow> path \<Rightarrow> string list io" where
  "run_args h devkit_json_path =
     bindM (config_run_args devkit_json_path) (\<lambda>config_args.
     bindM env_run_args (\<lambda>env_args.
     bindM (getM w_env) (\<lambda>env.
       liftM (mapE (expand_arg env) (map JStr (tty_args h) @ config_args @ map JStr env_args)))))"

definition volume_flag :: "dirs \<Rightarrow> path \<Rightarrow> string" where
  "volume_flag d p =
     (if is_relative_to p (command_home d)
      then let suffix = relative_to p (command_home d)
           in ''--volume='' @ str_path (joinpath (host_home d) suffix) @ '':'' @ str_path (joinpath (container_home d) suffix)
      else ''--volume='' @ str_path p @ '':'' @ str_path p)"

section \<open>The command\<close>

definition base_cmd :: "host \<Rightarrow> dirs \<Rightarrow> user \<Rightarrow> path \<Rightarrow> int \<Rightarrow> int \<Rightarrow> string list" where
  "base_cmd h d u cwd port docker_gid =
     (let soft = str_int (fst (h_nofile h)); hard = str_int (snd (h_nofile h))
      in [''docker'', ''run'', ''--rm'', ''--ulimit'', ''nofile='' @ soft @ '':'' @ hard,
          ''--volume='' @ str_path (host_project_root d) @ '':'' @ str_path (container_project_root d),
          ''--workdir='' @ str_path cwd,
          ''--env=HOME='' @ str_path (container_home d),
          ''--env=DEVKIT_SOCKET_PORT='' @ str_int port,
          ''--env=GOOGLE_CLOUD_PROJECT'', ''--env=GEMINI_API_KEY'', ''--env=AWS_SECRET_ACCESS_KEY'',
          ''--env=AWS_ACCESS_KEY_ID'', ''--env=AWS_SESSION_TOKEN'', ''--env=AWS_PAGER'', ''--env=GH_TOKEN'',
          ''--env=CLOUDSDK_CONTAINER_USE_APPLICATION_DEFAULT_CREDENTIALS'',
          ''--env=USER='' @ user_name u, ''--env=USER_ID='' @ str_int (user_id u),
          ''--env=GROUP='' @ group_name u, ''--env=GROUP_ID='' @ str_int (group_id u),
          ''--env=TMPDIR='' @ str_path (container_tmp_dir d), ''--env=TERM=xterm-256color'', ''--env=COLORTERM'',
          ''--env=DOCKER_GROUP=docker'', ''--env=DOCKER_GROUP_ID='' @ str_int docker_gid,
          ''--env=NOBODY_GROUP=nobody'',
          ''--env=DBUS_SYSTEM_BUS_ADDRESS=unix:path='' @ str_path system_bus_socket,
          ''--env=DBUS_SESSION_BUS_ADDRESS=unix:path='' @ str_path (session_bus_socket (user_id u)),
          ''--env=DEVKIT_NOFILE_SOFT='' @ soft, ''--env=DEVKIT_NOFILE_HARD='' @ hard,
          ''--env=ADDITIONAL_PATH=''])"

definition host_flags :: "host \<Rightarrow> dirs \<Rightarrow> path \<Rightarrow> string list" where
  "host_flags h d scripts_dir =
     [''--net=host'', ''--ipc=host'', ''--hostname='' @ h_hostname h,
      ''--volume='' @ str_path (host_tmp_dir d) @ '':'' @ str_path (container_tmp_dir d),
      ''--entrypoint='' @ str_path (child scripts_dir ''entrypoint_docker'')]"

section \<open>Running it\<close>

text \<open>The cancel events of the two threads, which the last phase carries: whether the event of the
  cleanup is set, and the listener.\<close>

record threads =
  cleanup_set :: bool
  event_server :: server

definition cancel_threads :: "threads \<Rightarrow> threads" where
  "cancel_threads ts = ts\<lparr>cleanup_set := True, event_server := shutdown_socket (set_event (event_server ts))\<rparr>"

text \<open>128 plus the number of \<^verbatim>\<open>SIGINT\<close>.\<close>

definition exit_code_sigint :: int where
  "exit_code_sigint = 130"

text \<open>The \<^verbatim>\<open>try\<close> statement around the container; \<open>ts\<close> are the threads as the \<^verbatim>\<open>finally\<close> clause finds
  them, and the result holds what it leaves of them.  Both threads are daemons and are joined for a
  second at most, so that nothing else depends on them.\<close>

definition run_container :: "string list \<Rightarrow> threads \<Rightarrow> world \<Rightarrow> ((exn + int) \<times> threads) \<times> world" where
  "run_container docker_cmd ts w =
     (case catchM (bindM (run_proc docker_cmd) (\<lambda>(rc, _). retM rc))
             (\<lambda>e. e = KeyboardInterrupt) (\<lambda>_. retM exit_code_sigint) w of
        (r, w') \<Rightarrow> ((r, cancel_threads ts), w'))"



record run_plan =
  plan_cmd :: "string list"
  plan_user :: user
  plan_cleanup :: thread
  plan_server :: server

text \<open>Everything up to the start of the cleanup thread, and the log record in between.\<close>

definition prepare_run :: "(string \<Rightarrow> nat) \<Rightarrow> host \<Rightarrow> path \<Rightarrow> string list \<Rightarrow> run_plan io" where
  "prepare_run polls h scripts_dir unknown_args =
     bindM (find_dirs h) (\<lambda>d.
     bindM (requested_mounts h (command_home d)) (\<lambda>(u, first_mounts).
     bindM git_mounts (\<lambda>(git_dirs, git_env).
     bindM context_env (\<lambda>ctx_env.
     bindM (group_gid h ''docker'') (\<lambda>docker_gid.
     bindM (group_gid h ''nobody'') (\<lambda>nobody_gid.
     let mounts = first_mounts @ git_dirs;
         nobody_env = (if 0 < nobody_gid then [''--env=NOBODY_GROUP_ID='' @ str_int nobody_gid] else []) in
     bindM (get_minimal_mounts (command_project_root d) mounts) (\<lambda>minimal_mounts.
     bindM (log_info (''Resolved '' @ str_nat (length minimal_mounts) @ '' minimal mounts out of '' @
              str_nat (length mounts) @ '' requested'')) (\<lambda>_.
     let devkit_json_path = child (command_project_root d) ''devkit.json'' in
     bindM (run_args h devkit_json_path) (\<lambda>evaluated_args.
     bindM (set_order minimal_mounts) (\<lambda>ordered_mounts.
     bindM (getM (\<lambda>w. start_container_event_handler (h_bound h) w)) (\<lambda>started.
     bindM (liftM started) (\<lambda>(_, server, port).
     bindM (log_info (''Container file descriptor limits: soft='' @ str_int (fst (h_nofile h)) @ '', hard='' @
              str_int (snd (h_nofile h)))) (\<lambda>_.
     bindM (getM cwd_path) (\<lambda>cwd.
     let docker_cmd = base_cmd h d u cwd port docker_gid @ (git_env @ ctx_env @ nobody_env) @
           map (volume_flag d) ordered_mounts @ host_flags h d scripts_dir @ evaluated_args @ unknown_args in
       retM \<lparr>plan_cmd = docker_cmd, plan_user = u,
             plan_cleanup = start_background_cleanup polls devkit_json_path [child (parent scripts_dir) ''images'']
               CLEANUP_BATCH_SIZE CLEANUP_THRESHOLD_DAYS,
             plan_server = server\<rparr>))))))))))))))"




section \<open>What the phases leave alone\<close>

definition git_cmds :: "string list set" where
  "git_cmds = {[''git'', ''rev-parse'', ''--is-inside-work-tree''], [''git'', ''rev-parse'', ''--absolute-git-dir'']}"

text \<open>A relation that output, changes of files and the two git queries keep is kept by the whole
  preparation of the command.\<close>

locale preparation = frame +
  assumes keeps_log: "keeps (emit (Log l s))"
    and keeps_print: "keeps (emit (Print f s))"
    and keeps_update: "keeps (updates_fs g p)"
    and keeps_git: "cmd \<in> git_cmds \<Longrightarrow> keeps (run_proc cmd)"
begin

lemma keeps_git_checked: "cmd \<in> git_cmds \<Longrightarrow> keeps (run_checked c cmd)"
  unfolding run_checked_def Let_def by (intro keeps_intros keeps_git)

lemmas keeps_rules = keeps_intros keeps_log keeps_print keeps_update

lemma keeps_path_from_env: "keeps (path_from_env name d)"
  unfolding path_from_env_def getenv_set_def getenv_def by (intro keeps_rules)

lemma keeps_find_root: "keeps find_project_root"
proof -
  have "keeps (first_with_devkit ps)" for ps
    by (induction ps) (simp_all only: first_with_devkit.simps, (intro keeps_rules, assumption?)+)
  then show ?thesis unfolding find_project_root_def by (intro keeps_rules)
qed

lemma keeps_find_dirs: "keeps (find_dirs h)"
  unfolding find_dirs_def find_host_root_def path_home_def getenv_def Let_def
  by (intro keeps_rules keeps_path_from_env keeps_find_root)

lemma keeps_requested: "keeps (requested_mounts h home)"
  unfolding requested_mounts_def find_user_def env_or_def env_int_or_def getenv_set_def getenv_def make_home_dir_def
    make_home_file_def path_mkdir_def path_touch_def Let_def
  by (intro keeps_rules)

lemma keeps_git_mounts: "keeps git_mounts"
  unfolding git_mounts_def Let_def
  by (intro keeps_rules keeps_git keeps_git_checked) (simp_all add: git_cmds_def)

lemma keeps_group: "keeps (group_gid h name)"
  unfolding group_gid_def by (intro keeps_rules)

lemma keeps_minimal: "keeps (get_minimal_mounts p ps)"
  unfolding get_minimal_mounts_def list_external_mounts_def by (intro keeps_rules)

lemma keeps_run_args: "keeps (run_args h p)"
  unfolding run_args_def config_run_args_def read_run_args_def env_run_args_def getenv_set_def getenv_def
  by (intro keeps_rules)

lemma keeps_prepare_run: "keeps (prepare_run polls h dir args)"
  unfolding prepare_run_def set_order_def context_env_def Let_def
  by (intro keeps_rules keeps_find_dirs keeps_requested keeps_git_mounts keeps_group keeps_minimal keeps_run_args)

end


lemma setting_keeps_updates_fs: "setting.keeps (updates_fs f p)"
  by (auto simp: setting.keeps_def updates_fs_def same_setting_def split: sum.splits)


interpretation run_setting: preparation same_setting
  by unfold_locales (rule setting_keeps_emit setting_keeps_updates_fs setting_keeps_run_proc)+

section \<open>The commands that are run\<close>










section \<open>The end of the container\<close>

text \<open>
  C37. However the container ends, its end is reported and both threads are cancelled: the result is
  the exit code of \<^verbatim>\<open>docker\<close>, 130 if the run was interrupted, and the error if there is no
  \<^verbatim>\<open>docker\<close>; in each case both events are set, and the listener, in whatever state it was, is left with
  at most two turns.
\<close>

theorem run_container_cancels:
  assumes "step\<^sup>*\<^sup>* (new_server port w0) (event_server ts)" "\<not> cancelling (event_server ts)"
    "run_container cmd ts w = ((r, ts'), w')"
  shows "r = (case fst (w_exec w (w_trace w) (w_fs w) cmd) of
        Done rc out err \<Rightarrow> Inr rc | Interrupt \<Rightarrow> Inr 130 | NoProgram \<Rightarrow> Inl (no_such_file (hd cmd))) \<and>
    cleanup_set ts' \<and> event_set (event_server ts') \<and>
    ((thread_turn ^^ n) (event_server ts') st \<longrightarrow> n \<le> 2)"
proof -
  let ?st = "event_server ts"
  have "step ?st (set_event ?st)" using assms(2) by (rule set_first)
  moreover have "step (set_event ?st) (shutdown_socket (set_event ?st))" by (rule set_second) (simp add: set_event_def)
  ultimately have "step\<^sup>*\<^sup>* (new_server port w0) (shutdown_socket (set_event ?st))"
    using assms(1) by (meson rtranclp.rtrancl_into_rtrancl)
  then have c: "cancelled (shutdown_socket (set_event ?st))"
    using reachable_inv by (auto simp: cancelled_def shutdown_socket_def set_event_def)
  have ts': "ts' = cancel_threads ts" using assms(3) by (auto simp: run_container_def split: prod.splits)
  have "turns_left (event_server ts') \<le> 2" by (simp add: turns_left_def split: pc.splits)
  then have "(thread_turn ^^ n) (event_server ts') st \<longrightarrow> n \<le> 2"
    using turns_bounded [of n _ st] c by (fastforce simp: ts' cancel_threads_def)
  moreover have "cleanup_set ts' \<and> event_set (event_server ts')"
    by (simp add: ts' cancel_threads_def shutdown_socket_def set_event_def)
  moreover have "r = (case fst (w_exec w (w_trace w) (w_fs w) cmd) of
      Done rc out err \<Rightarrow> Inr rc | Interrupt \<Rightarrow> Inr 130 | NoProgram \<Rightarrow> Inl (no_such_file (hd cmd)))"
    using assms(3)
    by (auto simp: run_container_def catchM_def bindM_run run_proc_def exit_code_sigint_def Let_def
        split: prod.splits sum.splits proc.splits)
  ultimately show ?thesis by simp
qed

definition interrupted_world :: world where
  "interrupted_world =
     \<lparr>w_fs = Dir [], w_cwd = [], w_env = [], w_trace = [], w_exec = (\<lambda>_ fs _. (Interrupt, fs)), w_order = (\<lambda>xs. xs)\<rparr>"

theorem run_container_cancels_witness:
  "fst (fst (run_container [''docker'', ''run''] \<lparr>cleanup_set = False, event_server = waiting_server\<rparr> interrupted_world)) = Inr 130"
proof -
  let ?ts = "\<lparr>cleanup_set = False, event_server = waiting_server\<rparr>"
  obtain r ts' w' where run: "run_container [''docker'', ''run''] ?ts interrupted_world = ((r, ts'), w')"
    by (metis prod.collapse)
  show ?thesis
    using run_container_cancels [OF _ _ run, of 4711 "s_world sample_server"] waiting_reachable run
    by (simp add: sample_server_def new_server_def waiting_server_def begin_listening_def interrupted_world_def)
qed

section \<open>The mounts of the container\<close>

lemma path_wf_above: "is_relative_to p m \<Longrightarrow> path_wf p \<Longrightarrow> path_wf m"
  by (auto simp: is_relative_to_def path_wf_def prefix_def)

lemma get_minimal_mounts_given:
  assumes "get_minimal_mounts d ps w = (Inr ms, w')" "p \<in> set ps"
  shows "\<exists>m\<in>set ms. is_relative_to p m"
proof -
  obtain qs where "ms = minimize_paths qs" "p \<in> set qs"
    using assms by (auto simp: get_minimal_mounts_def bindM_Inr)
  then show ?thesis using minimize_paths_covers [of qs] by (simp add: relative.covers_def)
qed

lemma set_order_keeps:
  assumes "set_order ms w = (Inr os, w')" "m \<in> set ms" "path_wf m" "\<forall>xs. set (w_order w xs) = set xs"
  shows "m \<in> set os"
proof -
  have "path_of (str_path m) \<in> set os" using assms by (auto simp: set_order_def)
  then show ?thesis using assms(3) by (simp add: path_of_str_path)
qed

lemma mapM_retM:
  assumes "mapM f xs w = (Inr ys, w')" "\<And>x w y w'. x \<in> set xs \<Longrightarrow> f x w = (Inr y, w') \<Longrightarrow> y = g x"
  shows "ys = map g xs"
  using assms by (induction xs arbitrary: w ys) (auto simp: bindM_Inr)

lemma requested_mounts_include:
  assumes "requested_mounts h home w = (Inr (u, ms), w')"
  shows "set ([docker_sock, system_bus_socket, session_bus_socket (user_id u)] @
     map (joinpath home) (home_dirs @ home_files)) \<subseteq> set ms"
proof -
  from assms obtain w1 w2 w3 ds fs ex where
    d: "mapM (make_home_dir home) home_dirs w1 = (Inr ds, w2)" and f: "mapM (make_home_file home) home_files w2 = (Inr fs, w3)"
    and ms: "ms = [docker_sock, system_bus_socket] @ (if ex then [etc_gitconfig] else []) @ [session_bus_socket (user_id u)] @ ds @ fs"
    by (auto simp: requested_mounts_def bindM_Inr)
  have "ds = map (joinpath home) home_dirs" by (rule mapM_retM [OF d]) (auto simp: make_home_dir_def bindM_Inr Let_def)
  moreover have "fs = map (joinpath home) home_files"
    by (rule mapM_retM [OF f]) (auto simp: make_home_file_def bindM_Inr Let_def)
  ultimately show ?thesis using ms by auto
qed

lemma path_from_env_wf: "path_from_env name p w = (Inr q, w') \<Longrightarrow> path_wf p \<Longrightarrow> path_wf q"
  by (auto simp: path_from_env_def bindM_Inr split: option.splits)

lemma command_home_wf: "find_dirs h w = (Inr d, w') \<Longrightarrow> path_wf (command_home d)"
  by (auto simp: find_dirs_def path_home_def bindM_Inr Let_def dest!: path_from_env_wf)

lemma prepare_run_mounts:
  assumes run: "prepare_run polls h dir args w = (Inr pl, w')" and d: "find_dirs h w = (Inr d, w1)"
    and order: "\<forall>xs. set (w_order w xs) = set xs"
    and u: "requested_mounts h (command_home d) w1 = (Inr (u, first), w2)" and p: "p \<in> set first" "path_wf p"
  shows "\<exists>m. is_relative_to p m \<and> volume_flag d m \<in> set (plan_cmd pl)"
proof -
  note keeps = setting.keepsD [OF run_setting.keeps_find_dirs] setting.keepsD [OF run_setting.keeps_requested]
    setting.keepsD [OF run_setting.keeps_git_mounts] setting.keepsD [OF run_setting.keeps_group]
    setting.keepsD [OF run_setting.keeps_minimal] setting.keepsD [OF run_setting.keeps_run_args]
  from run d u obtain gd ge w3 w4 w5 w6 tr w8 docker nobody ms ra os w9 where
    g: "git_mounts w2 = (Inr (gd, ge), w3)" "group_gid h ''docker'' w3 = (Inr docker, w4)" "group_gid h ''nobody'' w4 = (Inr nobody, w5)"
    and m: "get_minimal_mounts (command_project_root d) (first @ gd) w5 = (Inr ms, w6)"
    and l: "run_args h (child (command_project_root d) ''devkit.json'') (w6\<lparr>w_trace := tr\<rparr>) = (Inr ra, w8)"
    and os: "set_order ms w8 = (Inr os, w9)" and cmd: "volume_flag d ` set os \<subseteq> set (plan_cmd pl)"
    by - (clarsimp simp: prepare_run_def context_env_def bindM_Inr Let_def simp del: append_Cons append.simps, rule that, assumption+, auto)
  have "w_order w8 = w_order w"
    using keeps(1) [OF d] keeps(2) [OF u] keeps(3) [OF g(1)] keeps(4) [OF g(2)] keeps(4) [OF g(3)] keeps(5) [OF m]
      keeps(6) [OF l] by (simp add: same_setting_def)
  then have o8: "\<forall>xs. set (w_order w8 xs) = set xs" using order by simp
  obtain q where q: "q \<in> set ms" "is_relative_to p q" using get_minimal_mounts_given [OF m] p(1) by fastforce
  then have "q \<in> set os" using set_order_keeps [OF os _ _ o8] path_wf_above p(2) by blast
  then show ?thesis using q(2) cmd by blast
qed

text \<open>
  C38. Every mount that the container needs is passed to \<^verbatim>\<open>docker\<close>: the sockets of docker, of the system
  bus and of the session bus of the user, and every directory and file of the home directory lies
  below a path for which the command has a volume flag, in whatever order the set of mounts is
  iterated.
\<close>

theorem docker_run_mounts:
  assumes "prepare_run polls h dir args w = (Inr pl, w')" "find_dirs h w = (Inr d, w1)"
    "\<forall>xs. set (w_order w xs) = set xs"
  shows "\<forall>p \<in> set ([docker_sock, system_bus_socket, session_bus_socket (user_id (plan_user pl))] @
       map (joinpath (command_home d)) (home_dirs @ home_files)).
     \<exists>m. is_relative_to p m \<and> volume_flag d m \<in> set (plan_cmd pl)"
proof -
  from assms(1,2) obtain first w2 where u: "requested_mounts h (command_home d) w1 = (Inr (plan_user pl, first), w2)"
    by (auto simp: prepare_run_def bindM_Inr Let_def)
  have "path_wf (session_bus_socket (user_id (plan_user pl)))"
    using str_int_chars str_int_ne by (auto simp: session_bus_socket_def)
  then have "path_wf p" if "p \<in> set ([docker_sock, system_bus_socket, session_bus_socket (user_id (plan_user pl))] @
       map (joinpath (command_home d)) (home_dirs @ home_files))" for p
    using that command_home_wf [OF assms(2)]
    by (auto simp: docker_sock_def system_bus_socket_def home_dirs_def home_files_def)
  then show ?thesis using prepare_run_mounts [OF assms u] requested_mounts_include [OF u] by blast
qed

definition sample_host :: host where
  "sample_host =
     \<lparr>h_script = path_of ''/w/docker_run.py'', h_uid = 5, h_gid = 5, h_pw_name = Inr ''u'', h_gr_name = Inr ''g'', h_pw_dir = ''/h'',
      h_groups = [], h_stdin_tty = False, h_stdout_tty = True, h_nofile = (1, 1), h_hostname = ''host'', h_bound = Inr 4711\<rparr>"

text \<open>A project in \<^verbatim>\<open>/w\<close> and a home directory that has everything already.\<close>

definition sample_fs :: node where
  "sample_fs = Dir
     [(''h'', Dir
        [(''.cache'', Dir (map (\<lambda>n. (n, Dir []))
            [''bazel'', ''bazelisk'', ''buf'', ''go-build'', ''nvim'', ''pip'', ''pip-tools'', ''pre-commit'', ''pylint''])),
         (''.config'', Dir (map (\<lambda>n. (n, Dir [])) [''gcloud'', ''google-chrome'', ''matplotlib''])),
         (''.devkit'', Dir [(''logs'', Dir [])]), (''.docker'', Dir []), (''.gemini'', Dir []), (''.gitconfig'', File [] 0),
         (''.local'', Dir [(''pre-commit'', Dir []), (''share'', Dir [(''nvim'', Dir [])]), (''state'', Dir [])]),
         (''.npm'', Dir []), (''.vim'', Dir [])]),
      (''w'', Dir [(''devkit'', File [] 0)])]"

definition sample_run_world :: "event list \<Rightarrow> world" where
  "sample_run_world tr =
     \<lparr>w_fs = sample_fs, w_cwd = [''w''], w_env = [], w_trace = tr,
      w_exec = (\<lambda>_ fs _. (NoProgram, fs)), w_order = (\<lambda>xs. xs)\<rparr>"

definition sample_dirs :: dirs where
  "sample_dirs =
     \<lparr>host_project_root = path_of ''/w'', container_project_root = path_of ''/w'', command_project_root = path_of ''/w'',
      host_home = path_of ''/h'', command_home = path_of ''/h'', container_home = path_of ''/h'',
      host_tmp_dir = path_of ''/tmp'', container_tmp_dir = path_of ''/tmp''\<rparr>"

definition sample_mounts :: "path list" where
  "sample_mounts = [docker_sock, system_bus_socket, session_bus_socket 5] @ map (joinpath (path_of ''/h'')) (home_dirs @ home_files)"

lemma sample_fs_facts:
  "list_all (\<lambda>r. mkdir_parents (joinpath (path_of ''/h'') r) sample_fs (p_parts (joinpath (path_of ''/h'') r)) = Inr sample_fs \<and>
     is_absolute (joinpath (path_of ''/h'') r)) home_dirs"
  "mkdir_parents (path_of ''/h'') sample_fs (p_parts (path_of ''/h'')) = Inr sample_fs"
  "exists_at sample_fs (p_parts (path_of ''/h/.gitconfig''))"
  "\<not> exists_at sample_fs (p_parts etc_gitconfig)"
  "list_all (\<lambda>p. \<not> isl (realpath sample_fs max_links [] (p_parts p)) \<and> is_absolute p) (path_of ''/w'' # sample_mounts)"
  "\<not> is_symlink_at sample_fs (p_parts (path_of ''/w''))"
  "exists_at sample_fs (p_parts (path_of ''/w/devkit''))"
  "\<not> exists_at sample_fs (p_parts (path_of ''/w/devkit.json''))"
  by code_simp+

lemma sample_world_simps [simp]:
  "w_fs (sample_run_world tr) = sample_fs" "w_env (sample_run_world tr) = []" "w_trace (sample_run_world tr) = tr"
  "w_exec (sample_run_world tr) = (\<lambda>_ fs _. (NoProgram, fs))"
  "(sample_run_world tr)\<lparr>w_fs := sample_fs\<rparr> = sample_run_world tr"
  "(sample_run_world tr)\<lparr>w_trace := tr'\<rparr> = sample_run_world tr'"
  by (simp_all add: sample_run_world_def)

lemma sample_paths:
  "joinpath (path_of ''/h'') (path_of ''.gitconfig'') = path_of ''/h/.gitconfig''"
  "parent (path_of ''/h/.gitconfig'') = path_of ''/h''" "child (path_of ''/w'') ''devkit'' = path_of ''/w/devkit''"
  "child (path_of ''/w'') ''devkit.json'' = path_of ''/w/devkit.json''"
  "is_absolute etc_gitconfig" "is_absolute (path_of ''/h'')" "is_absolute (path_of ''/h/.gitconfig'')" "is_absolute (path_of ''/w/devkit'')"
  "is_absolute (path_of ''/w/devkit.json'')"
  by code_simp+

lemma sample_find_dirs: "\<exists>tr. find_dirs sample_host (sample_run_world []) = (Inr sample_dirs, sample_run_world tr)"
proof -
  have "current_dir (sample_run_world []) = path_of ''/w''"
    by code_simp
  then have "find_project_root (sample_run_world []) = (Inr (path_of ''/w''), sample_run_world [])"
    by (simp add: find_project_root_def bindM_run path_exists_def comps_def sample_paths sample_fs_facts)
  then show ?thesis
    by (simp add: find_dirs_def find_host_root_def path_from_env_def getenv_set_def getenv_def path_home_def bindM_run catchM_def
        sample_dirs_def sample_host_def Let_def) blast
qed

lemma mapM_same: "(\<And>x. x \<in> set xs \<Longrightarrow> f x w = (Inr (g x), w)) \<Longrightarrow> mapM f xs w = (Inr (map g xs), w)"
  by (induction xs) (simp_all add: bindM_run)

lemma sample_requested:
  "\<exists>u. user_id u = 5 \<and> requested_mounts sample_host (path_of ''/h'') (sample_run_world tr) = (Inr (u, sample_mounts), sample_run_world tr)"
proof -
  let ?w = "sample_run_world tr"
  have "mapM (make_home_dir (path_of ''/h'')) home_dirs ?w = (Inr (map (joinpath (path_of ''/h'')) home_dirs), ?w)"
    using sample_fs_facts(1)
    by (intro mapM_same) (simp add: make_home_dir_def path_mkdir_def updates_fs_def bindM_run comps_def list_all_iff Let_def)
  moreover have "mapM (make_home_file (path_of ''/h'')) home_files ?w = (Inr (map (joinpath (path_of ''/h'')) home_files), ?w)"
    by (intro mapM_same) (simp add: make_home_file_def home_files_def path_mkdir_def path_touch_def updates_fs_def bindM_run comps_def
        sample_paths sample_fs_facts Let_def)
  ultimately show ?thesis
    by (simp add: requested_mounts_def bindM_run path_exists_def comps_def sample_paths sample_fs_facts find_user_def
        env_or_def env_int_or_def getenv_set_def getenv_def sample_host_def sample_mounts_def)
qed

lemma sample_minimal: "\<exists>ms. get_minimal_mounts (path_of ''/w'') sample_mounts (sample_run_world tr) = (Inr ms, sample_run_world tr)"
proof -
  let ?w = "sample_run_world tr"
  have r: "\<exists>q. path_resolve p ?w = (Inr q, ?w)" if "p \<in> set (path_of ''/w'' # sample_mounts)" for p
  proof -
    have "\<not> isl (realpath sample_fs max_links [] (comps ?w p))"
      using sample_fs_facts(5) that unfolding list_all_iff comps_def by auto
    then show ?thesis by (auto simp: path_resolve_def isl_def split: sum.splits)
  qed
  then obtain g where g: "\<forall>p \<in> set (path_of ''/w'' # sample_mounts). path_resolve p ?w = (Inr (g p), ?w)" by metis
  have "mapM path_resolve sample_mounts ?w = (Inr (map g sample_mounts), ?w)" using g by (intro mapM_same) simp
  moreover have "\<not> is_symlink_at sample_fs (comps ?w (path_of ''/w''))"
    using sample_fs_facts(5,6) by (simp add: comps_def)
  ultimately show ?thesis
    using g by (simp add: get_minimal_mounts_def list_external_mounts_def bindM_run del: mounts_loop.simps)
qed

lemma sample_run_args: "\<exists>ra. run_args sample_host (path_of ''/w/devkit.json'') (sample_run_world tr) = (Inr ra, sample_run_world tr)"
  by (simp add: run_args_def config_run_args_def env_run_args_def getenv_set_def getenv_def catchM_def bindM_run path_exists_def comps_def
      sample_paths sample_fs_facts tty_args_def sample_host_def expand_arg_def)

lemma sample_prepare:
  "\<exists>pl w'. prepare_run polls sample_host dir [] (sample_run_world []) = (Inr pl, w') \<and> user_id (plan_user pl) = 5"
proof -
  obtain tr u where d: "find_dirs sample_host (sample_run_world []) = (Inr sample_dirs, sample_run_world tr)"
    and u: "user_id u = 5" "requested_mounts sample_host (path_of ''/h'') (sample_run_world tr) = (Inr (u, sample_mounts), sample_run_world tr)"
    using sample_find_dirs sample_requested by blast
  have g: "\<exists>tr'. git_mounts (sample_run_world tr) = (Inr ([], []), sample_run_world tr')" for tr
    by (simp add: git_mounts_def bindM_run catchM_def run_proc_def Let_def) blast
  have gid: "\<exists>tr'. group_gid sample_host name (sample_run_world tr) = (Inr 0, sample_run_world tr')" for name tr
    by (simp add: group_gid_def bindM_run sample_host_def) blast
  obtain tr1 where t1: "git_mounts (sample_run_world tr) = (Inr ([], []), sample_run_world tr1)" using g by blast
  obtain tr2 where t2: "group_gid sample_host ''docker'' (sample_run_world tr1) = (Inr 0, sample_run_world tr2)" using gid by blast
  obtain tr3 where t3: "group_gid sample_host ''nobody'' (sample_run_world tr2) = (Inr 0, sample_run_world tr3)" using gid by blast
  obtain ms where m: "get_minimal_mounts (path_of ''/w'') sample_mounts (sample_run_world tr3) = (Inr ms, sample_run_world tr3)"
    using sample_minimal by blast
  obtain ra where ra: "run_args sample_host (path_of ''/w/devkit.json'') (sample_run_world tr) = (Inr (ra tr), sample_run_world tr)" for tr
    using sample_run_args by metis
  have "command_home sample_dirs = path_of ''/h''" "command_project_root sample_dirs = path_of ''/w''" "h_bound sample_host = Inr 4711"
    by (simp_all add: sample_dirs_def sample_host_def)
  then show ?thesis
    using u(1) by (simp add: prepare_run_def bindM_run d u(2) t1 t2 t3 m ra context_env_def sample_paths set_order_def
        start_container_event_handler_def Let_def del: append_Cons)
qed

theorem docker_run_mounts_witness:
  "\<exists>pl. (\<exists>w'. prepare_run (\<lambda>_. 0) sample_host (path_of ''/w'') [] (sample_run_world []) = (Inr pl, w')) \<and>
     (\<exists>m. is_relative_to docker_sock m \<and> volume_flag sample_dirs m \<in> set (plan_cmd pl))"
proof -
  obtain pl w' tr where "prepare_run (\<lambda>_. 0) sample_host (path_of ''/w'') [] (sample_run_world []) = (Inr pl, w')"
    "find_dirs sample_host (sample_run_world []) = (Inr sample_dirs, sample_run_world tr)"
    using sample_prepare sample_find_dirs by blast
  then show ?thesis using docker_run_mounts [of "\<lambda>_. 0" sample_host "path_of ''/w''" "[]" "sample_run_world []" pl w' sample_dirs]
    by (auto simp: sample_run_world_def)
qed

end
