(* ===== verification/Bep.thy ===== *)
theory Bep
  imports FindProjectRoot PyFiles PyArgparse
begin

text \<open>
  \<^verbatim>\<open>src/.devkit/scripts/bep.py\<close>: runs Bazel once for every target and has it write the build events to
  a file of its own.

  The name of the next temporary directory is a parameter: \<open>fresh w\<close> is the path that
  \<^verbatim>\<open>tempfile.mkdtemp\<close> picks in the world \<open>w\<close>.
\<close>

section \<open>Temporary directories\<close>

fun drop_node :: "node \<Rightarrow> string list \<Rightarrow> node" where
  "drop_node (Dir es) [c] = Dir (filter (\<lambda>(name, _). name \<noteq> c) es)"
| "drop_node (Dir es) (c # d # cs) =
     (case map_of es c of
        None \<Rightarrow> Dir es
      | Some m \<Rightarrow> Dir (dict_set es c (drop_node m (d # cs))))"
| "drop_node m _ = m"

definition mkdtemp :: "(world \<Rightarrow> path) \<Rightarrow> path io" where
  "mkdtemp fresh =
     (\<lambda>w. let d = fresh w
          in case mkdir_at (w_fs w) (comps w d) of
               Inr (Some fs') \<Rightarrow> (Inr d, w\<lparr>w_fs := fs'\<rparr>)
             | Inr None \<Rightarrow> (Inl (OSError (''File exists: '' @ str_path d)), w)
             | Inl e \<Rightarrow> (Inl (fs_exn e d), w))"

text \<open>\<^verbatim>\<open>TemporaryDirectory.cleanup\<close>: a directory that is gone is not an error.\<close>

definition remove_tree_at :: "path \<Rightarrow> node \<Rightarrow> string list \<Rightarrow> exn + node" where
  "remove_tree_at p fs cs =
     (case walk fs max_links [] (butlast cs) of
        Inl ENOENT \<Rightarrow> Inr fs
      | Inl e \<Rightarrow> Inl (fs_exn e p)
      | Inr (cur, _) \<Rightarrow>
          (case node_at fs (cur @ [last cs]) of
             None \<Rightarrow> Inr fs
           | Some (Dir _) \<Rightarrow> Inr (drop_node fs (cur @ [last cs]))
           | Some _ \<Rightarrow> Inl (fs_exn ENOTDIR p)))"

definition with_temp_dir :: "(world \<Rightarrow> path) \<Rightarrow> (path \<Rightarrow> 'a io) \<Rightarrow> 'a io" where
  "with_temp_dir fresh body =
     bindM (mkdtemp fresh) (\<lambda>d. finallyM (body d) (updates_fs (remove_tree_at d) d))"

section \<open>Running Bazel\<close>

text \<open>The two handlers of \<^verbatim>\<open>run_command\<close>.\<close>

definition command_failed :: "string list \<Rightarrow> exn \<Rightarrow> string io" where
  "command_failed cmd_args e =
     (case e of
        CalledProcessError cmd rc out err \<Rightarrow>
          bindM (print_err (''Error: Command '' @ quoted (join '' '' cmd) @ '' failed with exit code '' @ str_int rc @ ''.'')) (\<lambda>_.
          bindM (whenM (out \<noteq> []) (print_err (''STDOUT:'' @ [nl] @ out))) (\<lambda>_.
          bindM (whenM (err \<noteq> []) (print_err (''STDERR:'' @ [nl] @ err))) (\<lambda>_.
            sys_exit 1)))
      | _ \<Rightarrow> bindM (print_err (''Error: Command not found: '' @ hd cmd_args)) (\<lambda>_. sys_exit 1))"

definition run_command :: "string list \<Rightarrow> bool \<Rightarrow> string io" where
  "run_command cmd_args capture_output =
     bindM (log_info (''Executing: '' @ join '' '' cmd_args)) (\<lambda>_.
     catchM
       (bindM (run_checked capture_output cmd_args) (\<lambda>(out, _).
          retM (if capture_output then strip out else [])))
       (\<lambda>e. is_called_process_error e \<or> is_file_not_found e)
       (command_failed cmd_args))"

definition bazel_command_line :: "path \<Rightarrow> path \<Rightarrow> path \<Rightarrow> string \<Rightarrow> path \<Rightarrow> string \<Rightarrow> string list" where
  "bazel_command_line project_root cache_dir registry_dir bazel_target output_path bazel_command =
     [str_path (child (child project_root ''devkit'') ''build''), ''bazel'',
      ''--output_base='' @ str_path cache_dir,
      bazel_command,
      ''--build_event_json_file='' @ str_path output_path,
      ''--repository_cache='' @ str_path registry_dir,
      bazel_target] @
     (if bazel_command = ''build'' then [''--noremote_accept_cached''] else [])"

definition generate_build_event_json :: "(world \<Rightarrow> path) \<Rightarrow> string \<Rightarrow> path \<Rightarrow> string \<Rightarrow> unit io" where
  "generate_build_event_json fresh bazel_target output_path bazel_command =
     bindM find_project_root (\<lambda>project_root.
     with_temp_dir fresh (\<lambda>bazel_cache_dir.
     with_temp_dir fresh (\<lambda>bazel_registry_cache_dir.
       bindM (run_command (bazel_command_line project_root bazel_cache_dir bazel_registry_cache_dir
                bazel_target output_path bazel_command) False) (\<lambda>_. retM ()))))"

definition process_target_and_save :: "(world \<Rightarrow> path) \<Rightarrow> string \<Rightarrow> path \<Rightarrow> string \<Rightarrow> unit io" where
  "process_target_and_save fresh bazel_target output_file command =
     bindM (log_info (''--- Processing: '' @ bazel_target @ '' ---'')) (\<lambda>_.
     bindM (generate_build_event_json fresh bazel_target output_file command) (\<lambda>_.
       log_info (''--- Finished processing '' @ bazel_target @ '' ---'')))"

section \<open>The targets\<close>

definition sanitized_target_name :: "string \<Rightarrow> string" where
  "sanitized_target_name bazel_target = last (split_on CHR ''/'' (replace '':'' ''_'' bazel_target))"

definition target_file :: "path \<Rightarrow> string \<Rightarrow> path" where
  "target_file output_dir bazel_target =
     child (joinpath output_dir (path_of (sanitized_target_name bazel_target))) ''bep.json''"

definition process_each :: "(world \<Rightarrow> path) \<Rightarrow> string \<Rightarrow> path \<Rightarrow> string \<Rightarrow> unit io" where
  "process_each fresh command output_dir bazel_target =
     (let output_file = target_file output_dir bazel_target
      in bindM (path_mkdir (parent output_file)) (\<lambda>_.
           process_target_and_save fresh bazel_target output_file command))"

definition generate_bazel_events_folder :: "(world \<Rightarrow> path) \<Rightarrow> string list \<Rightarrow> string \<Rightarrow> path \<Rightarrow> unit io" where
  "generate_bazel_events_folder fresh targets command output_dir =
     bindM (path_mkdir output_dir) (\<lambda>_.
       if targets = [] then process_target_and_save fresh ''//...'' (child output_dir ''bep.json'') command
       else forM targets (process_each fresh command output_dir))"

definition bep_parser :: "opt list" where
  "bep_parser =
     [help_opt,
      (store_opt ''--targets'' ''targets'' ToStr (AList []))\<lparr>o_action := StoreList True\<rparr>,
      (store_opt ''--command'' ''command'' ToStr (AStr ''fetch''))\<lparr>o_choices := [''fetch'', ''build'']\<rparr>,
      store_opt ''--output_dir'' ''output_dir'' ToPath (APath (path_of ''bazel-bep'')),
      store_opt ''--devkit-log-file'' ''devkit_log_file'' ToPath ANone]"

definition bep_main :: "(world \<Rightarrow> path) \<Rightarrow> string list \<Rightarrow> unit io" where
  "bep_main fresh argv =
     bindM (parse_args bep_parser None argv) (\<lambda>args.
     bindM (basic_config (get_path args ''devkit_log_file'')) (\<lambda>_.
     bindM (generate_bazel_events_folder fresh (get_strs args ''targets'') (get_str args ''command'')
              (the (get_path args ''output_dir''))) (\<lambda>_.
       print_out ''All targets processed successfully.'')))"

section \<open>Errors\<close>

lemma run_command_raises: "raises_in {SystemExit 1, KeyboardInterrupt} (run_command cmd capture)"
proof -
  have "raises_in {SystemExit 1} (command_failed cmd e)" for e
    unfolding command_failed_def by (cases e) (simp_all add: raises_in_def bindM_Inl whenM_def)
  then have h: "raises_in {SystemExit 1, KeyboardInterrupt} (command_failed cmd e)" for e
    by (auto simp: raises_in_def)
  have "raises_in {e. e = KeyboardInterrupt \<or> is_called_process_error e \<or> is_file_not_found e} (run_checked capture cmd)"
    by (rule raises_in_run_checked) auto
  then show ?thesis
    unfolding run_command_def using h
    by (auto simp: raises_in_def bindM_Inl catchM_def split: prod.splits sum.splits if_splits)
qed

text \<open>Nothing is left of a temporary directory.\<close>

lemma node_at_drop_node: "cs \<noteq> [] \<Longrightarrow> node_at (drop_node n cs) cs = None"
proof (induction n cs rule: drop_node.induct)
  case (1 es c)
  then show ?case by (auto simp: map_of_eq_None_iff split: option.splits)
qed (auto simp: neq_Nil_conv split: option.splits)

lemma remove_tree_at_gone:
  assumes "remove_tree_at p fs cs = Inr fs'" "walk fs max_links [] (butlast cs) = Inr (cur, k)"
  shows "node_at fs' (cur @ [last cs]) = None"
  using assms node_at_drop_node [of "cur @ [last cs]" fs]
  by (auto simp: remove_tree_at_def split: option.splits node.splits)

section \<open>Success\<close>

lemma finallyM_Inr: "finallyM m f w = (Inr x, w2) \<longleftrightarrow> (\<exists>w1 u. m w = (Inr x, w1) \<and> f w1 = (Inr u, w2))"
  by (auto simp: finallyM_def split: prod.splits sum.splits)

text \<open>\<open>all_succeed ex tr evs\<close>: every command among \<open>evs\<close>, which follow the events \<open>tr\<close>, ended with the exit
  code 0.\<close>

fun all_succeed :: "(event list \<Rightarrow> node \<Rightarrow> string list \<Rightarrow> proc \<times> node) \<Rightarrow> event list \<Rightarrow> event list \<Rightarrow> bool" where
  "all_succeed ex tr [] = True"
| "all_succeed ex tr (ev # evs) =
     ((case ev of Exec cmd \<Rightarrow> (\<exists>fs out err. fst (ex tr fs cmd) = Done 0 out err) | _ \<Rightarrow> True) \<and>
      all_succeed ex (tr @ [ev]) evs)"

lemma all_succeed_append: "all_succeed ex tr (evs @ evs') \<longleftrightarrow> all_succeed ex tr evs \<and> all_succeed ex (tr @ evs) evs'"
  by (induction evs arbitrary: tr) auto

text \<open>What a run that returns has done: the events it added, with every command a success.\<close>

definition has_run :: "world \<Rightarrow> world \<Rightarrow> string list list \<Rightarrow> bool" where
  "has_run w w' cmds =
     (\<exists>evs. w_trace w' = w_trace w @ evs \<and> w_exec w' = w_exec w \<and> execs evs = cmds \<and> all_succeed (w_exec w) (w_trace w) evs)"

lemma has_run_refl: "w_trace w' = w_trace w \<Longrightarrow> w_exec w' = w_exec w \<Longrightarrow> has_run w w' []"
  by (simp add: has_run_def)

lemma has_run_trans: "has_run w w1 cs \<Longrightarrow> has_run w1 w2 ds \<Longrightarrow> has_run w w2 (cs @ ds)"
  unfolding has_run_def using all_succeed_append by fastforce

lemma has_run_emit: "emit ev w = (Inr u, w') \<Longrightarrow> (\<And>cmd. ev \<noteq> Exec cmd) \<Longrightarrow> has_run w w' []"
  by (cases ev) (auto simp: has_run_def)

lemma has_run_updates_fs: "updates_fs f p w = (Inr u, w') \<Longrightarrow> has_run w w' []"
  by (auto simp: updates_fs_def intro!: has_run_refl split: sum.splits)

lemma has_run_run_command:
  assumes "run_command cmd False w = (Inr s, w')"
  shows "has_run w w' [cmd]"
proof -
  have fail: "\<not> (\<exists>x w'. command_failed cmd e w = (Inr x, w'))" for e w
    by (cases e) (auto simp: command_failed_def bindM_Inr)
  let ?w = "w\<lparr>w_trace := w_trace w @ [Log INFO (''Executing: '' @ join '' '' cmd)]\<rparr>"
  have log: "has_run w ?w []" by (simp add: has_run_def)
  obtain out err fs where x: "w_exec w (w_trace ?w) (w_fs w) cmd = (Done 0 out err, fs)"
    and w': "w' = ?w\<lparr>w_trace := w_trace ?w @ [Exec cmd], w_fs := fs\<rparr>"
    using assms fail
    by (auto simp: run_command_def bindM_Inr catchM_def run_checked_def run_proc_def Let_def
        split: prod.splits sum.splits proc.splits if_splits)
  have "has_run ?w w' [cmd]" unfolding has_run_def w' using x by (intro exI [of _ "[Exec cmd]"]) (auto intro: exI [of _ "w_fs w"])
  then show ?thesis using has_run_trans [OF log] by simp
qed

lemma has_run_with_temp_dir:
  assumes "with_temp_dir fresh body w = (Inr x, w')" "\<And>d w w'. body d w = (Inr x, w') \<Longrightarrow> \<exists>cmd. has_run w w' [cmd] \<and> P d cmd"
  shows "\<exists>d cmd. has_run w w' [cmd] \<and> P d cmd"
proof -
  from assms(1) obtain d w1 w2 u where m: "mkdtemp fresh w = (Inr d, w1)" and b: "body d w1 = (Inr x, w2)"
    and r: "updates_fs (remove_tree_at d) d w2 = (Inr u, w')"
    by (auto simp: with_temp_dir_def bindM_Inr finallyM_Inr)
  have "has_run w w1 []" using m by (auto simp: mkdtemp_def Let_def intro!: has_run_refl split: sum.splits option.splits)
  moreover obtain cmd where c: "has_run w1 w2 [cmd]" "P d cmd" using assms(2) [OF b] by blast
  ultimately have "has_run w w' ([] @ [cmd] @ [])" using has_run_updates_fs [OF r] has_run_trans by blast
  then show ?thesis using c(2) by auto
qed

text \<open>The command that a target and its file call for.\<close>

definition bazel_run :: "string \<Rightarrow> string \<times> path \<Rightarrow> string list \<Rightarrow> bool" where
  "bazel_run command job cmd =
     (\<exists>root cache registry. cmd = bazel_command_line root cache registry (fst job) (snd job) command)"

definition bep_jobs :: "string list \<Rightarrow> path \<Rightarrow> (string \<times> path) list" where
  "bep_jobs targets output_dir =
     (if targets = [] then [(''//...'', child output_dir ''bep.json'')]
      else map (\<lambda>t. (t, target_file output_dir t)) targets)"

lemma has_run_process:
  assumes "process_target_and_save fresh target file command w = (Inr u, w')"
  shows "\<exists>cmd. has_run w w' [cmd] \<and> bazel_run command (target, file) cmd"
proof -
  from assms obtain w1 w2 where l: "log_info (''--- Processing: '' @ target @ '' ---'') w = (Inr (), w1)"
    and g: "generate_build_event_json fresh target file command w1 = (Inr (), w2)"
    and f: "log_info (''--- Finished processing '' @ target @ '' ---'') w2 = (Inr u, w')"
    by (auto simp: process_target_and_save_def bindM_Inr simp del: append_Cons)
  obtain root w3 where root: "find_project_root w1 = (Inr root, w3)"
    and t: "with_temp_dir fresh (\<lambda>c. with_temp_dir fresh (\<lambda>r.
        bindM (run_command (bazel_command_line root c r target file command) False) (\<lambda>_. retM ()))) w3 = (Inr (), w2)"
    using g by (auto simp: generate_build_event_json_def bindM_Inr)
  have w3: "w3 = w1"
    using root by (auto simp: find_project_root_def bindM_Inr first_with_devkit_run simp del: first_with_devkit.simps split: option.splits)
  have "\<exists>d cmd. has_run w3 w2 [cmd] \<and> (\<exists>r. cmd = bazel_command_line root d r target file command)"
  proof (rule has_run_with_temp_dir [OF t])
    fix c w w'
    assume "with_temp_dir fresh (\<lambda>r. bindM (run_command (bazel_command_line root c r target file command) False) (\<lambda>_. retM ())) w
      = (Inr (), w')"
    then have "\<exists>d cmd. has_run w w' [cmd] \<and> cmd = bazel_command_line root c d target file command"
      by (rule has_run_with_temp_dir) (auto simp: bindM_Inr dest: has_run_run_command)
    then show "\<exists>cmd. has_run w w' [cmd] \<and> (\<exists>r. cmd = bazel_command_line root c r target file command)" by blast
  qed
  then obtain cmd where c: "has_run w1 w2 [cmd]" "bazel_run command (target, file) cmd"
    unfolding w3 bazel_run_def by auto
  have "has_run w w1 []" "has_run w2 w' []" using has_run_emit [OF l] has_run_emit [OF f] by simp_all
  then have "has_run w w' ([] @ [cmd] @ [])" using c(1) has_run_trans by blast
  then show ?thesis using c(2) by auto
qed

lemma has_run_each:
  "forM targets (process_each fresh command output_dir) w = (Inr u, w') \<Longrightarrow>
   \<exists>cmds. has_run w w' cmds \<and> list_all2 (bazel_run command) (map (\<lambda>t. (t, target_file output_dir t)) targets) cmds"
proof (induction targets arbitrary: w)
  case (Cons t targets)
  from Cons.prems obtain w2 where e: "process_each fresh command output_dir t w = (Inr (), w2)"
    and rest: "forM targets (process_each fresh command output_dir) w2 = (Inr u, w')" by (auto simp: bindM_Inr)
  from e obtain w1 where m: "path_mkdir (parent (target_file output_dir t)) w = (Inr (), w1)"
    and p: "process_target_and_save fresh t (target_file output_dir t) command w1 = (Inr (), w2)"
    by (auto simp: process_each_def bindM_Inr Let_def)
  obtain cmd where c: "has_run w1 w2 [cmd]" "bazel_run command (t, target_file output_dir t) cmd" using has_run_process [OF p] by blast
  obtain cmds where cs: "has_run w2 w' cmds" "list_all2 (bazel_run command) (map (\<lambda>t. (t, target_file output_dir t)) targets) cmds"
    using Cons.IH [OF rest] by blast
  have "has_run w w1 []" using m by (simp add: path_mkdir_def has_run_updates_fs)
  then have "has_run w w' ([] @ [cmd] @ cmds)" using c(1) cs(1) has_run_trans by blast
  then show ?case using c(2) cs(2) by (intro exI [of _ "cmd # cmds"]) simp
qed (auto intro!: has_run_refl)

lemma has_run_folder:
  assumes "generate_bazel_events_folder fresh targets command output_dir w = (Inr u, w')"
  shows "\<exists>cmds. has_run w w' cmds \<and> list_all2 (bazel_run command) (bep_jobs targets output_dir) cmds"
proof -
  from assms obtain w1 where m: "path_mkdir output_dir w = (Inr (), w1)"
    and r: "(if targets = [] then process_target_and_save fresh ''//...'' (child output_dir ''bep.json'') command
       else forM targets (process_each fresh command output_dir)) w1 = (Inr u, w')"
    by (auto simp: generate_bazel_events_folder_def bindM_Inr)
  have "\<exists>cmds. has_run w1 w' cmds \<and> list_all2 (bazel_run command) (bep_jobs targets output_dir) cmds"
  proof (cases "targets = []")
    case True
    then obtain cmd where "has_run w1 w' [cmd]" "bazel_run command (''//...'', child output_dir ''bep.json'') cmd"
      using has_run_process r by fastforce
    then show ?thesis using True by (intro exI [of _ "[cmd]"]) (simp add: bep_jobs_def)
  qed (use r has_run_each in \<open>simp add: bep_jobs_def\<close>)
  moreover have "has_run w w1 []" using m by (simp add: path_mkdir_def has_run_updates_fs)
  ultimately show ?thesis using has_run_trans [of w w1 "[]"] by fastforce
qed

text \<open>
  C39. When the script reports success, it has run Bazel exactly once for every target of the command
  line, in order, or once for all of them if none is given; each run had the command asked for and
  wrote its events to the file of the target, and every one of the runs ended with the exit code 0.
\<close>

theorem bep_main_complete:
  assumes "bep_main fresh argv w = (Inr (), w')"
  shows "\<exists>args evs cmds. parse_all bep_parser None argv = Inr args \<and> w_trace w' = w_trace w @ evs \<and> execs evs = cmds \<and>
    list_all2 (bazel_run (get_str args ''command''))
      (bep_jobs (get_strs args ''targets'') (the (get_path args ''output_dir''))) cmds \<and>
    all_succeed (w_exec w) (w_trace w) evs"
proof -
  from assms obtain args w1 w2 where a: "parse_all bep_parser None argv = Inr args"
    and c: "basic_config (get_path args ''devkit_log_file'') w = (Inr (), w1)"
    and g: "generate_bazel_events_folder fresh (get_strs args ''targets'') (get_str args ''command'')
       (the (get_path args ''output_dir'')) w1 = (Inr (), w2)"
    and p: "print_out ''All targets processed successfully.'' w2 = (Inr (), w')"
    by (auto simp: bep_main_def bindM_Inr parse_args_Inr simp del: get_path.simps get_str.simps append_Cons)
  obtain cmds where cmds: "has_run w1 w2 cmds" "list_all2 (bazel_run (get_str args ''command''))
      (bep_jobs (get_strs args ''targets'') (the (get_path args ''output_dir''))) cmds"
    using has_run_folder [OF g] by blast
  have "has_run w w1 []"
    using c by (auto simp: basic_config_def has_run_updates_fs intro: has_run_refl simp del: get_path.simps split: option.splits)
  moreover have "has_run w2 w' []" using has_run_emit [OF p] by simp
  ultimately have "has_run w w' ([] @ cmds @ [])" using cmds(1) has_run_trans by blast
  then show ?thesis using a cmds(2) by (auto simp: has_run_def simp del: get_path.simps get_str.simps)
qed

definition bep_world :: world where
  "bep_world =
     \<lparr>w_fs = Dir [(''devkit'', Dir []), (''tmp'', Dir [])], w_cwd = [], w_env = [], w_trace = [],
      w_exec = (\<lambda>_ fs _. (Done 0 [] [], fs)), w_order = (\<lambda>xs. xs)\<rparr>"

text \<open>A name that is not taken: as many letters as the directory has entries.\<close>

definition next_temp_dir :: "world \<Rightarrow> path" where
  "next_temp_dir w =
     Path ''/'' [''tmp'', replicate (case node_at (w_fs w) [''tmp''] of Some (Dir es) \<Rightarrow> Suc (length es) | _ \<Rightarrow> 1) CHR ''x'']"

lemma bep_world_main: "case fst (bep_main next_temp_dir [''--targets'', ''//a:b'', ''//c''] bep_world) of Inr _ \<Rightarrow> True | Inl _ \<Rightarrow> False"
  by code_simp

lemma bep_world_args:
  "case parse_all bep_parser None [''--targets'', ''//a:b'', ''//c''] of
     Inr args \<Rightarrow> get_strs args ''targets'' = [''//a:b'', ''//c''] | Inl _ \<Rightarrow> False"
  by code_simp

theorem bep_main_complete_witness:
  "length (execs (w_trace (snd (bep_main next_temp_dir [''--targets'', ''//a:b'', ''//c''] bep_world)))) = 2"
proof -
  obtain w' where run: "bep_main next_temp_dir [''--targets'', ''//a:b'', ''//c''] bep_world = (Inr (), w')"
    using bep_world_main by (auto split: sum.splits simp: prod_eq_iff)
  show ?thesis
    using bep_main_complete [OF run] bep_world_args run
    by (auto simp: bep_jobs_def bep_world_def dest!: list_all2_lengthD simp del: get_path.simps get_str.simps)
qed

text \<open>Two targets with the same package name write to the same file: the events of the first are lost.\<close>

lemma target_file_collision: "target_file output_dir ''//a:b'' = target_file output_dir ''//x/a:b''"
proof -
  have "sanitized_target_name ''//a:b'' = sanitized_target_name ''//x/a:b''" by code_simp
  then show ?thesis by (simp add: target_file_def)
qed

end
