(* ===== verification/Bootstrap.thy ===== *)
theory Bootstrap
  imports PyFiles PyArgparse
begin

text \<open>
  \<^verbatim>\<open>src/.devkit/scripts/bootstrap.py\<close>: instantiates a project template, a directory tree of Jinja2
  templates.

  Jinja2 is a parameter: \<open>parse content\<close> is \<^verbatim>\<open>Environment.from_string\<close>, and \<open>render fs dir template context\<close>
  is \<^verbatim>\<open>template.render\<close> with a loader on the directory \<open>dir\<close> of the file system \<open>fs\<close>, from which a
  template may include others.  Both may raise.  The tree of the template is walked before the first
  file is written.
\<close>

section \<open>Copying a template\<close>


text \<open>The lines around the error, with their indices.\<close>

definition lines_around :: "string list \<Rightarrow> int \<Rightarrow> (int \<times> string) list" where
  "lines_around lines lineno =
     map (\<lambda>i. (i, lines ! nat i)) [max 0 (lineno - 4) .. min (int (length lines)) (lineno + 3) - 1]"

definition context_line :: "int \<Rightarrow> int \<times> string \<Rightarrow> string" where
  "context_line lineno il =
     (case il of (i, line) \<Rightarrow>
        ''    '' @ rjust 4 (str_int (i + 1)) @ (if i + 1 = lineno then '' >'' else ''  '') @ '' '' @ line)"

definition is_template_error :: "exn \<Rightarrow> bool" where
  "is_template_error e = (case e of TemplateSyntaxError _ _ \<Rightarrow> True | UndefinedError _ \<Rightarrow> True | _ \<Rightarrow> False)"

text \<open>The two \<^verbatim>\<open>except\<close> clauses.\<close>

definition report_template_error :: "path \<Rightarrow> string \<Rightarrow> exn \<Rightarrow> unit io" where
  "report_template_error src_file_path content e =
     bindM (print_err (''Error in template: '' @ str_path src_file_path)) (\<lambda>_.
       case e of
         TemplateSyntaxError lineno message \<Rightarrow>
           bindM (print_err (''  Line '' @ str_int lineno @ '': '' @ message)) (\<lambda>_.
             forM (lines_around (splitlines content) lineno) (\<lambda>il. print_err (context_line lineno il)))
       | UndefinedError message \<Rightarrow> print_err (''  '' @ message)
       | _ \<Rightarrow> retM ())"







section \<open>The script\<close>







section \<open>The report of an error\<close>

text \<open>The marked line is the line of the error, with three lines before it and three after it.\<close>

lemma lines_around_iff:
  "(i, line) \<in> set (lines_around lines n) \<longleftrightarrow>
     0 \<le> i \<and> i < int (length lines) \<and> \<bar>i + 1 - n\<bar> \<le> 3 \<and> line = lines ! nat i"
  by (auto simp: lines_around_def image_iff)

lemma template_report_returns: "is_template_error e \<Longrightarrow> \<exists>w'. report_template_error p content e w = (Inr (), w')"
proof -
  have "\<exists>w'. forM ils (\<lambda>il. print_err (f il)) w = (Inr (), w')" for ils and f :: "int \<times> string \<Rightarrow> string" and w
    by (induction ils arbitrary: w) (simp_all add: bindM_run)
  then show "is_template_error e \<Longrightarrow> ?thesis"
    by (cases e) (simp_all add: is_template_error_def report_template_error_def bindM_run)
qed

section \<open>Files that are written\<close>









section \<open>What a successful run has done\<close>























end
