(* ===== verification/Spec2Isabelle.thy ===== *)
theory Spec2Isabelle
  imports DockerPipeline DockerLoad FindProjectRoot ListExternalMounts DockerCleanup CoverageReport ContainerEvents
    DockerRun Bep Bootstrap
begin

text \<open>
  A verification library for the developer tool kit (devkit) of the public endorsement service: the
  Python scripts that build its container images, run its containers, clean up after them, check
  coverage, record build events and instantiate project templates.

  \<^bold>\<open>The program.\<close>  The scripts are in \<^verbatim>\<open>src/.devkit/scripts\<close>; \<^verbatim>\<open>src/api\<close>, \<^verbatim>\<open>src/mbs\<close> and
  \<^verbatim>\<open>src/container-tools\<close> carry copies of the same directory.  The copies are identical, byte by byte, with
  one exception: \<^verbatim>\<open>coverage_report.py\<close> of \<^verbatim>\<open>container-tools\<close> lacks five lines of \<^verbatim>\<open>run_bazel_coverage\<close>, and
  is modelled beside the others (\<^const>\<open>run_bazel_coverage_at_root\<close>).  A model of a function therefore stands for
  all four copies.  How the scripts depend on each other:

  \<^item> \<^verbatim>\<open>docker/build.py\<close> names, builds, pulls and pushes images;
  \<^item> \<^verbatim>\<open>docker_cleanup.py\<close> asks it which images are in use, and removes the others;
  \<^item> \<^verbatim>\<open>docker_run.py\<close> finds the project (\<^verbatim>\<open>find_project_root.py\<close>), its mounts (\<^verbatim>\<open>list_external_mounts.py\<close>), and
    runs a container beside a cleanup thread and a listener (\<^verbatim>\<open>container_event_handler.py\<close>);
  \<^item> \<^verbatim>\<open>coverage_report.py\<close>, \<^verbatim>\<open>bep.py\<close> and \<^verbatim>\<open>bootstrap.py\<close> stand alone, but for the project root.

  \<^bold>\<open>The language.\<close>  What the scripts use of Python and its library is modelled once:

  \<^item> \<^verbatim>\<open>Prelude\<close>: strings as their UTF-8 bytes, dictionaries as association lists in insertion order, the
    exceptions as the values of one type, decimal numerals;
  \<^item> \<^verbatim>\<open>PyFloat\<close>: binary64 numbers as rationals, with correctly rounded division, parsing and fixed-point output;
  \<^item> \<^verbatim>\<open>PyJson\<close>: the parser of \<^verbatim>\<open>json\<close>, \<^verbatim>\<open>repr\<close> and \<^verbatim>\<open>int\<close>;
  \<^item> \<^verbatim>\<open>PyPath\<close>: \<^verbatim>\<open>pathlib\<close> and a file system with directories, files and links;
  \<^item> \<^verbatim>\<open>PyIO\<close>: the world, that is the files, the working directory, the environment and the trace of all output and
    all commands, and actions on it that may raise; programs are a function from the trace, the files
    and the command to an outcome, and so are arbitrary, and the order in which a set is iterated is another one;
  \<^item> \<^verbatim>\<open>PyFiles\<close>: \<^verbatim>\<open>mkdir\<close>, writing, \<^verbatim>\<open>os.walk\<close>; \<^verbatim>\<open>PyArgparse\<close>: \<^verbatim>\<open>argparse\<close>; \<^verbatim>\<open>PyShlex\<close>: \<^verbatim>\<open>shlex\<close> and
    \<^verbatim>\<open>os.path.expandvars\<close>; \<^verbatim>\<open>Sha256\<close>: SHA-256 on 32-bit words; \<^verbatim>\<open>TopoSort\<close>: \<^verbatim>\<open>graphlib.TopologicalSorter\<close>.

  \<^bold>\<open>The components.\<close>  A function of the source has a definition of the same name (a leading underscore is
  dropped, and \<^verbatim>\<open>main\<close> carries the name of its script); the bodies of loops and the phases of long functions have
  definitions of their own.

  \<^item> \<^verbatim>\<open>docker/build.py\<close>: \<^verbatim>\<open>DockerConfig\<close> (schema, validation, registry settings, \<^verbatim>\<open>deps.json\<close>), \<^verbatim>\<open>DockerImages\<close> (one
    image), \<^verbatim>\<open>DockerBuild\<close> (the class \<^verbatim>\<open>DockerBuilder\<close> as the record \<^typ>\<open>builder\<close>), \<^verbatim>\<open>DockerTags\<close>, \<^verbatim>\<open>DockerLoad\<close>,
    \<^verbatim>\<open>DockerMain\<close> and \<^verbatim>\<open>DockerPipeline\<close>.  The validator decides conformance to the schema (C1).  Whatever docker
    answers, an image is there when \<^const>\<open>manage_docker_image\<close> returns (C2); the commands it runs (C3, C5) and the
    exceptions it ends with (C4) are exactly known.  The build order has the dependencies first and is
    complete (C6).  Tags are content addresses (C7, C8), and the recursion that computes them never
    reaches Python's limit (C9).  No malformed configuration escapes the validation (C10), the standard
    output carries nothing but the tag asked for (C12), and a run of \<^const>\<open>build_images\<close> leaves every image of
    the build order in docker's store (C13).
  \<^item> \<^verbatim>\<open>FindProjectRoot\<close>: the root is the nearest one (C11).
  \<^item> \<^verbatim>\<open>ListExternalMounts\<close>: the scan ends and finds exactly the external paths (C15); the set is minimal (C14) and
    covers what it has to (C16).
  \<^item> \<^verbatim>\<open>DockerCleanup\<close> (with \<^verbatim>\<open>Readers\<close>, the actions that only look): the pattern of image names is matched exactly
    (C17); only unused, allowed images are removed (C18), in batches without a loss (C19), and all of them (C21);
    cancellation stops the removals (C20); the cleanup recognises the tags of the builder (C22, C23).
  \<^item> \<^verbatim>\<open>CoverageReport\<close>: ranges and columns (C24, C25), the verdict (C26, C27) despite rounding, thresholds (C28), the LCOV
    reader against a writer (C29), the script as a whole (C30), and its two versions (C31).
  \<^item> \<^verbatim>\<open>ContainerEvents\<close>: messages (C32, C33), and the listener thread as a step relation between its blocking
    calls, interleaved with the cancellation by the main thread: its invariant (C34) and its end (C35).
  \<^item> \<^verbatim>\<open>DockerRun\<close>: which commands are run (C36), the end of the container (C37), the mounts (C38).
  \<^item> \<^verbatim>\<open>Bep\<close>: one successful run of Bazel per target (C39).  \<^verbatim>\<open>Bootstrap\<close>: every template instantiated (C40).

  \<^bold>\<open>Interfaces.\<close>  The locale \<^verbatim>\<open>frame\<close> of \<^verbatim>\<open>PyIO\<close> holds for every preorder on worlds what actions keep of it; it is
  interpreted on the growth of the trace, on the setting, on the commands run, on the files and on docker's
  store, and the locale \<^verbatim>\<open>preparation\<close> of \<^verbatim>\<open>DockerRun\<close> extends it.  The locale \<^verbatim>\<open>subpaths\<close> of \<^verbatim>\<open>ListExternalMounts\<close>
  holds the argument about minimal sets for every partial order.

  \<^bold>\<open>Bounds.\<close>  Every definition is total.  Fuel occurs where the platform has a limit: \<^const>\<open>recursion_limit\<close>, the
  1000 frames of Python, is shown to be enough (C9); \<^const>\<open>max_links\<close>, the 40 links that the kernel
  follows in one path name, bounds the resolution of paths.  Numerals of more than 4300 digits are
  refused, as by Python.  Integers are unbounded, as in Python; the words of SHA-256 have 32 bits.

  \<^bold>\<open>Not modelled.\<close>  The programs that are run (docker, git, Bazel, \<^verbatim>\<open>xhost\<close>), Jinja2, the users, groups and limits of
  the host, the answers of the network and the names of temporary directories are parameters.  Waiting
  is not modelled, only its outcome; the cleanup thread is modelled by itself, with the moments at which its event is
  read as set as a parameter, and is not interleaved with the main thread, with which it
  shares nothing else.  Permissions, a full disk and concurrent changes of the files are left out, as are the usage
  text of \<^verbatim>\<open>argparse\<close> and the time stamps of log records.  A file is decoded as a whole before its lines
  are used, and a directory tree is walked before it is changed.  The rest of the repository is not written in Python: the
  service itself and the certificate provider (Java), the proxy of the container tools (C++), the entry
  points and hooks (shell) and the build rules (Starlark).
\<close>

end
